theory Spec2Isabelle
  imports Complex_Main "HOL-Library.Multiset"
begin

section \<open>Python strings\<close>

text \<open>
  A Python \<open>str\<close> is a sequence of Unicode code points, and \<open>len\<close>, slicing, \<open>in\<close>
  and the \<open>re\<close> module all count code points.  A string is therefore a list of
  code points, each a natural number; the keywords of the source are Chinese and are
  written here by their code points (decimal), with an English gloss.
\<close>

type_synonym uchar = nat
type_synonym ustring = "uchar list"

text \<open>
  The characters for which \<open>str.isspace\<close> holds; \<open>str.strip()\<close> and the class
  \<open>\s\<close> of \<open>re\<close> (on \<open>str\<close> patterns) use exactly this set.
\<close>

definition whitespace_chars :: "uchar list" where
  "whitespace_chars =
     [9, 10, 11, 12, 13, 28, 29, 30, 31, 32, 133, 160, 5760,
      8192, 8193, 8194, 8195, 8196, 8197, 8198, 8199, 8200, 8201, 8202,
      8232, 8233, 8239, 8287, 12288]"

definition is_space :: "uchar \<Rightarrow> bool" where
  "is_space c = (c \<in> set whitespace_chars)"

text \<open>
  The class \<open>\d\<close> of \<open>re\<close> on a \<open>str\<close> pattern is the Unicode category Nd.  Its
  characters come in blocks of ten consecutive code points with the values 0 to 9;
  \<open>decimal_zeros\<close> lists the first code point of every block (Unicode 14, the
  tables of CPython 3.11).  \<open>float\<close> reads every such character by its value.
\<close>

definition decimal_zeros :: "uchar list" where
  "decimal_zeros =
     [48, 1632, 1776, 1984, 2406, 2534, 2662, 2790, 2918, 3046, 3174, 3302, 3430,
      3558, 3664, 3792, 3872, 4160, 4240, 6112, 6160, 6470, 6608, 6784, 6800, 6992,
      7088, 7232, 7248, 42528, 43216, 43264, 43472, 43504, 43600, 44016, 65296,
      66720, 68912, 69734, 69872, 69942, 70096, 70384, 70736, 70864, 71248, 71360,
      71472, 71904, 72016, 72784, 73040, 73120, 92768, 92864, 93008, 120782,
      120792, 120802, 120812, 120822, 123200, 123632, 125264, 130032]"

definition digit_value :: "uchar \<Rightarrow> nat option" where
  "digit_value c =
     (case find (\<lambda>z. z \<le> c \<and> c < z + 10) decimal_zeros of
        None \<Rightarrow> None
      | Some z \<Rightarrow> Some (c - z))"

definition is_digit :: "uchar \<Rightarrow> bool" where
  "is_digit c = (digit_value c \<noteq> None)"

text \<open>\<open>s.strip()\<close>: leading and trailing whitespace removed.\<close>

definition strip :: "ustring \<Rightarrow> ustring" where
  "strip s = rev (dropWhile is_space (rev (dropWhile is_space s)))"

text \<open>\<open>s.startswith(k)\<close>, and \<open>k in s\<close> for strings: \<open>k\<close> occurs in \<open>s\<close> as a
  contiguous run.\<close>

definition starts_with :: "ustring \<Rightarrow> ustring \<Rightarrow> bool" where
  "starts_with s k = (take (length k) s = k)"

fun str_in :: "ustring \<Rightarrow> ustring \<Rightarrow> bool" where
  "str_in k [] = (k = [])"
| "str_in k (c # s) = (starts_with (c # s) k \<or> str_in k s)"

text \<open>\<open>str(n)\<close> for a natural number.\<close>

fun str_nat :: "nat \<Rightarrow> ustring" where
  "str_nat n = (if n < 10 then [48 + n] else str_nat (n div 10) @ [48 + n mod 10])"

text \<open>\<open>any(word in s for word in words)\<close>.\<close>

definition any_in :: "ustring list \<Rightarrow> ustring \<Rightarrow> bool" where
  "any_in words s = list_ex (\<lambda>word. str_in word s) words"

section \<open>agents/base\_agent.py\<close>

text \<open>
  An exception is a value: \<open>Exception e\<close> stands for an instance of Python's class
  \<open>Exception\<close> (or of a subclass) whose text is \<open>e\<close>.  A computation that may raise
  returns \<open>exn + 'a\<close>, with \<open>Inl\<close> the raised exception.  \<open>try_except\<close> is
  \<open>try: body  except Exception as e: handler(e)\<close>.
\<close>

datatype exn = Exception ustring

definition try_except :: "exn + 'a \<Rightarrow> (exn \<Rightarrow> exn + 'a) \<Rightarrow> exn + 'a" where
  "try_except body handler = (case body of Inl e \<Rightarrow> handler e | Inr v \<Rightarrow> Inr v)"

text \<open>
  \<open>BaseAgent\<close>: the abstract hook \<open>_process_message_internal\<close> of the subclass is a
  field of the agent.  The calls to the logger leave no trace in the result and are
  left out.
\<close>

record base_agent =
  agent_name :: ustring
  process_message_internal :: "ustring \<Rightarrow> ustring \<Rightarrow> exn + ustring"

text \<open>The text of the \<open>except\<close> branch: a cross mark, the agent's name and
  "temporarily unavailable, please try again later".\<close>

definition unavailable_message :: "ustring \<Rightarrow> ustring" where
  "unavailable_message name =
     [10060, 32] @ name @
     [32, 26283, 26178, 28961, 27861, 20351, 29992, 65292, 35531, 31245, 24460, 20877, 35430]"

definition process_message :: "base_agent \<Rightarrow> ustring \<Rightarrow> ustring \<Rightarrow> exn + ustring" where
  "process_message self user_id message =
     try_except
       (case process_message_internal self user_id message of
          Inl e \<Rightarrow> Inl e
        | Inr result \<Rightarrow> Inr result)
       (\<lambda>e. Inr (unavailable_message (agent_name self)))"

definition validate_input :: "ustring \<Rightarrow> bool" where
  "validate_input message =
     (if message = [] \<or> strip message = [] then False
      else if length message > 1000 then False
      else True)"

section \<open>agents/ai\_intent\_analyzer.py\<close>

text \<open>ASCII text of the source is written as an Isabelle string and read as code points.\<close>

definition ascii :: "string \<Rightarrow> ustring" where
  "ascii s = map of_char s"

text \<open>
  \<open>str.lower\<close> is the interpreter's Unicode lower-casing.  The functions that call it
  take it as the parameter \<open>lower\<close>; \<open>ascii_lower\<close> is its restriction to the ASCII
  letters (it leaves every other code point as it is) and serves to run the functions.
\<close>

definition ascii_lower :: "ustring \<Rightarrow> ustring" where
  "ascii_lower s = map (\<lambda>c. if 65 \<le> c \<and> c \<le> 90 then c + 32 else c) s"

text \<open>
  \<open>max(xs, key=f)\<close>: the first element whose key is largest (a later element replaces
  the current best only when its key is strictly greater); ValueError on an empty
  sequence.
\<close>

fun max_from :: "('a \<Rightarrow> rat) \<Rightarrow> 'a \<Rightarrow> 'a list \<Rightarrow> 'a" where
  "max_from key best [] = best"
| "max_from key best (x # xs) =
     (if key x > key best then max_from key x xs else max_from key best xs)"

definition py_max :: "('a \<Rightarrow> rat) \<Rightarrow> 'a list \<Rightarrow> exn + 'a" where
  "py_max key xs =
     (case xs of
        [] \<Rightarrow> Inl (Exception (ascii ''ValueError''))
      | x # rest \<Rightarrow> Inr (max_from key x rest))"

text \<open>
  The keyword scores of \<open>_advanced_fallback_analysis\<close>.  The source adds the float
  literals 0.5, 0.3, 0.2, 0.7 and 0.8 to the integer 0.  Every sum that can arise
  (0.5 + 0.3, 0.8 + 0.2, 0.5 + 0.2, 0.3 + 0.2, 0.7 + 0.3) is, in binary floating
  point, the float of its exact decimal value, so the comparisons of the source on
  floats are the comparisons on the rational numbers used here.

  Keywords, in the order of the source.  Recommendation: buy, recommend, suggest, want,
  need, choose, which, what, good; then mouse, keyboard, earphones, phone, laptop,
  tablet; then a question mark (ASCII or full width) or the particle "ma", looked up
  in the message as typed.
\<close>

definition recommendation_score :: "ustring \<Rightarrow> ustring \<Rightarrow> rat" where
  "recommendation_score message_lower message =
     0
     + (if any_in [[36023], [25512, 34214], [24314, 35696], [24819, 35201], [38656, 35201],
                   [36984], [21738, 20491], [20160, 40636], [22909]] message_lower
        then 5 / 10 else 0)
     + (if any_in [[28369, 40736], [37749, 30436], [32819, 27231], [25163, 27231],
                   [31558, 38651], [24179, 26495]] message_lower
        then 3 / 10 else 0)
     + (if str_in [63] message \<or> str_in [65311] message \<or> str_in [21966] message
        then 2 / 10 else 0)"

text \<open>Price: price, how much, track, price cut, cheap, special offer; then notify,
  remind, target price.\<close>

definition price_score :: "ustring \<Rightarrow> rat" where
  "price_score message_lower =
     0
     + (if any_in [[20729, 26684], [22810, 23569, 37666], [36861, 36452], [38477, 20729],
                   [20415, 23452], [29305, 20729]] message_lower
        then 7 / 10 else 0)
     + (if any_in [[36890, 30693], [25552, 37266], [30446, 27161, 20729]] message_lower
        then 3 / 10 else 0)"

text \<open>Review: rating, review, good or not, easy to use, worth, how is it; then
  advantages, drawbacks, impressions, experience.\<close>

definition review_score :: "ustring \<Rightarrow> rat" where
  "review_score message_lower =
     0
     + (if any_in [[35413, 20729], [35413, 35542], [22909, 19981, 22909], [22909, 29992],
                   [20540, 24471], [24590, 40636, 27171]] message_lower
        then 7 / 10 else 0)
     + (if any_in [[20778, 40670], [32570, 40670], [24515, 24471], [39636, 39511]] message_lower
        then 3 / 10 else 0)"

text \<open>Finance: bookkeeping, record, expense, spent, consumption, expenditure; then
  budget, statistics, this month (two spellings), today.\<close>

definition finance_score :: "ustring \<Rightarrow> rat" where
  "finance_score message_lower =
     0
     + (if any_in [[35352, 24115], [35352, 37636], [33457, 36027], [33457, 20102],
                   [28040, 36027], [25903, 20986]] message_lower
        then 7 / 10 else 0)
     + (if any_in [[38928, 31639], [32113, 35336], [36889, 20491, 26376], [26412, 26376],
                   [20170, 22825]] message_lower
        then 3 / 10 else 0)"

text \<open>Mail: gmail, mail, two Chinese words for mail, email; then connect (two
  spellings), authorise, synchronise.\<close>

definition gmail_score :: "ustring \<Rightarrow> rat" where
  "gmail_score message_lower =
     0
     + (if any_in [ascii ''gmail'', ascii ''mail'', [37109, 20214], [20449, 20214],
                   ascii ''email''] message_lower
        then 8 / 10 else 0)
     + (if any_in [[36899, 25509], [36899, 32080], [25480, 27402], [21516, 27493]] message_lower
        then 2 / 10 else 0)"

text \<open>The dictionary \<open>scores\<close>, in the order in which the source inserts its keys
  (a Python dictionary iterates in insertion order).\<close>

definition keyword_scores :: "(ustring \<Rightarrow> ustring) \<Rightarrow> ustring \<Rightarrow> (ustring \<times> rat) list" where
  "keyword_scores lower message =
     (let message_lower = lower message in
      [(ascii ''SmartRecommendation'', recommendation_score message_lower message),
       (ascii ''PriceTracker'', price_score message_lower),
       (ascii ''ProductReview'', review_score message_lower),
       (ascii ''Finance'', finance_score message_lower),
       (ascii ''Gmail'', gmail_score message_lower)])"

text \<open>\<open>_guess_intent\<close>; the answers read "looking for a product recommendation", "price
  enquiry", "product reviews", "recording finances", "Gmail operation", "general
  enquiry".\<close>

definition guess_intent :: "(ustring \<Rightarrow> ustring) \<Rightarrow> ustring \<Rightarrow> ustring" where
  "guess_intent lower message =
     (let message_lower = lower message in
      if str_in [36023] message_lower \<or> str_in [25512, 34214] message_lower
        then [23563, 27714, 29986, 21697, 25512, 34214]
      else if str_in [20729, 26684] message_lower \<or> str_in [22810, 23569, 37666] message_lower
        then [26597, 35426, 20729, 26684, 36039, 35338]
      else if str_in [35413, 20729] message_lower \<or> str_in [22909, 19981, 22909] message_lower
        then [20102, 35299, 29986, 21697, 35413, 20729]
      else if str_in [35352, 24115] message_lower \<or> str_in [33457] message_lower
        then [35352, 37636, 36001, 21209, 36039, 35338]
      else if str_in (ascii ''gmail'') message_lower \<or> str_in [37109, 20214] message_lower
        then ascii ''Gmail'' @ [30456, 38364, 25805, 20316]
      else [19968, 33324, 35566, 35426])"

text \<open>\<open>_extract_keywords\<close>: the product words, then the action words, that occur in
  the lower-cased message; at most five.\<close>

definition extract_keywords :: "(ustring \<Rightarrow> ustring) \<Rightarrow> ustring \<Rightarrow> ustring list" where
  "extract_keywords lower message =
     (let message_lower = lower message;
          products = [[28369, 40736], [37749, 30436], [32819, 27231], [25163, 27231],
                      [31558, 38651], [24179, 26495], ascii ''iphone'', ascii ''airpods''];
          actions = [[36023], [25512, 34214], [20729, 26684], [35413, 20729],
                     [35352, 24115], [36861, 36452]]
      in take 5 (filter (\<lambda>product. str_in product message_lower) products
                 @ filter (\<lambda>action. str_in action message_lower) actions))"

text \<open>The third component of a decision: a JSON-like dictionary.\<close>

datatype jvalue = JStr ustring | JList "ustring list"

type_synonym analysis = "(ustring \<times> jvalue) list"

text \<open>One entry of a user's history, and the analyzer object with the two fields the
  modelled methods read or write.\<close>

record turn =
  turn_timestamp :: ustring
  turn_message :: ustring
  turn_agent :: ustring

record analyzer =
  api_key :: ustring
  conversation_history :: "ustring \<rightharpoonup> turn list"

text \<open>
  \<open>_advanced_fallback_analysis\<close>.  \<open>max(scores, key=scores.get)\<close> walks the keys in
  insertion order and compares their values, that is, it walks the items and compares
  the second components; \<open>scores[best_agent]\<close> is then the value of that item.  The
  parameter \<open>context\<close> is received and not used, as in the source.
\<close>

definition advanced_fallback_analysis ::
  "(ustring \<Rightarrow> ustring) \<Rightarrow> ustring \<Rightarrow> turn list \<Rightarrow> exn + (ustring \<times> rat \<times> analysis)" where
  "advanced_fallback_analysis lower message context =
     (let scores = keyword_scores lower message in
      case py_max id (map snd scores) of
        Inl e \<Rightarrow> Inl e
      | Inr top_score \<Rightarrow>
          (case (if top_score = 0 then Inr (ascii ''SmartRecommendation'', 3 / 10)
                 else (case py_max snd scores of
                         Inl e \<Rightarrow> Inl e
                       | Inr (best_agent, score) \<Rightarrow> Inr (best_agent, min score (9 / 10)))) of
             Inl e \<Rightarrow> Inl e
           | Inr (best_agent, confidence) \<Rightarrow>
               Inr (best_agent, confidence,
                    [(ascii ''intent'', JStr (guess_intent lower message)),
                     (ascii ''keywords'', JList (extract_keywords lower message)),
                     (ascii ''context'', JStr [22522, 26044, 35215, 21063, 20998, 26512]),
                     (ascii ''reasoning'',
                        JStr ([21305, 37197, 24230, 26368, 39640, 30340, 21151, 33021, 26159]
                              @ best_agent))])))"

text \<open>\<open>_get_user_context\<close>; a user id is \<open>None\<close> or a string, and the empty string is
  as false as \<open>None\<close>.\<close>

definition get_user_context :: "analyzer \<Rightarrow> ustring option \<Rightarrow> turn list" where
  "get_user_context self user_id =
     (case user_id of
        None \<Rightarrow> []
      | Some u \<Rightarrow>
          (if u \<noteq> [] then
             (case conversation_history self u of Some h \<Rightarrow> h | None \<Rightarrow> [])
           else []))"

text \<open>\<open>_update_conversation_history\<close>; \<open>now\<close> is the text of
  \<open>datetime.now().isoformat()\<close>, and \<open>h[-10:]\<close> of a list longer than ten is its last
  ten entries.\<close>

definition update_conversation_history ::
  "analyzer \<Rightarrow> ustring option \<Rightarrow> ustring \<Rightarrow> ustring \<Rightarrow> ustring \<Rightarrow> analyzer" where
  "update_conversation_history self user_id message agent now =
     (case user_id of
        None \<Rightarrow> self
      | Some u \<Rightarrow>
          (if u = [] then self
           else
             let h0 = (case conversation_history self u of None \<Rightarrow> [] | Some h \<Rightarrow> h);
                 h1 = h0 @ [\<lparr>turn_timestamp = now, turn_message = message, turn_agent = agent\<rparr>];
                 h2 = (if length h1 > 10 then drop (length h1 - 10) h1 else h1)
             in self\<lparr>conversation_history := (conversation_history self)(u \<mapsto> h2)\<rparr>))"

text \<open>
  What \<open>_call_openai\<close> hands back to \<open>analyze_intent\<close>:
  \<^item> \<open>No_Result\<close>: \<open>None\<close> (a status other than 200, or any exception inside the call:
    a timeout, a connection error, text that is not JSON) or a JSON value that is false
    in a condition (an empty object, \<open>null\<close>);
  \<^item> \<open>Not_An_Object\<close>: a JSON value that is true in a condition and is no object, on
    which \<open>result.get\<close> raises; \<open>analyze_intent\<close> catches that;
  \<^item> \<open>Reply a c d\<close>: a non-empty object with its values under "agent", "confidence"
    and "analysis", each possibly missing.
\<close>

datatype ai_reply =
    No_Result
  | Not_An_Object
  | Reply "ustring option" "rat option" "analysis option"

text \<open>
  \<open>analyze_intent\<close>.  The remote model is the parameter \<open>call_openai\<close>: the prompt is
  built from the message and from the last three entries of the context, and those two
  are what the model is given here.  The analyzer is returned with the decision, since
  the method may write the history.
\<close>

definition analyze_intent ::
  "(ustring \<Rightarrow> ustring) \<Rightarrow> (ustring \<Rightarrow> turn list \<Rightarrow> ai_reply) \<Rightarrow> ustring \<Rightarrow>
   analyzer \<Rightarrow> ustring \<Rightarrow> ustring option \<Rightarrow> (exn + (ustring \<times> rat \<times> analysis)) \<times> analyzer" where
  "analyze_intent lower call_openai now self message user_id =
     (let context = (if user_id \<noteq> None \<and> user_id \<noteq> Some [] then get_user_context self user_id
                     else [])
      in if api_key self = [] then (advanced_fallback_analysis lower message context, self)
         else
           (case call_openai message (drop (length context - 3) context) of
              Reply a c d \<Rightarrow>
                (let agent = (case a of Some x \<Rightarrow> x | None \<Rightarrow> ascii ''SmartRecommendation'');
                     confidence = (case c of Some x \<Rightarrow> x | None \<Rightarrow> 5 / 10);
                     analysis = (case d of Some x \<Rightarrow> x | None \<Rightarrow> [])
                 in (Inr (agent, confidence, analysis),
                     if user_id \<noteq> None \<and> user_id \<noteq> Some []
                     then update_conversation_history self user_id message agent now
                     else self))
            | No_Result \<Rightarrow> (advanced_fallback_analysis lower message context, self)
            | Not_An_Object \<Rightarrow> (advanced_fallback_analysis lower message context, self)))"

text \<open>A sequence of calls of \<open>_update_conversation_history\<close>, each with its user id,
  message, agent and time stamp; and the entry that one call appends.\<close>

fun record_all ::
  "analyzer \<Rightarrow> (ustring option \<times> ustring \<times> ustring \<times> ustring) list \<Rightarrow> analyzer" where
  "record_all self [] = self"
| "record_all self ((user_id, message, agent, now) # calls) =
     record_all (update_conversation_history self user_id message agent now) calls"

definition mk_turn :: "ustring \<times> ustring \<times> ustring \<Rightarrow> turn" where
  "mk_turn x =
     (case x of (message, agent, now) \<Rightarrow>
        \<lparr>turn_timestamp = now, turn_message = message, turn_agent = agent\<rparr>)"

definition last_ten :: "'a list \<Rightarrow> 'a list" where
  "last_ten xs = drop (length xs - 10) xs"

section \<open>agents/price\_tracker\_agent\_improved.py: the accessory filter\<close>

text \<open>
  A product of the PChome search reply, a JSON object; the filter reads its "name"
  with the default \<open>''\<close> for a missing key.
\<close>

record pchome_product =
  prod_name :: "ustring option"
  prod_price :: "int option"
  prod_id :: "ustring option"

text \<open>The accessory words: three kinds of protective case, leather case, charger,
  charging cable, data cable, battery, power bank, earphone cover, stand, screen film,
  screen protector, accessory, peripheral, "made for", "fits".\<close>

definition exclude_keywords :: "ustring list" where
  "exclude_keywords =
     [[20445, 35703, 22871], [20445, 35703, 27580], [25163, 27231, 27580], [30382, 22871],
      [20805, 38651, 22120], [20805, 38651, 32218],
      [20659, 36664, 32218], [38651, 27744], [34892, 21205, 38651, 28304],
      [32819, 27231, 22871], [25903, 26550], [36028, 33180],
      [20445, 35703, 36028], [37197, 20214], [21608, 37002], [23560, 29992],
      [36969, 29992, 26044]]"

text \<open>The test of the loop body: some accessory word occurs in the lower-cased name.\<close>

definition is_accessory :: "(ustring \<Rightarrow> ustring) \<Rightarrow> pchome_product \<Rightarrow> bool" where
  "is_accessory lower p =
     (let name = lower (case prod_name p of Some n \<Rightarrow> n | None \<Rightarrow> [])
      in any_in exclude_keywords name)"

definition filter_products ::
  "(ustring \<Rightarrow> ustring) \<Rightarrow> pchome_product list \<Rightarrow> ustring \<Rightarrow> pchome_product list" where
  "filter_products lower products query =
     (let filtered = filter (\<lambda>p. \<not> is_accessory lower p) products
      in if filtered \<noteq> [] then take 10 filtered else take 10 products)"

section \<open>agents/multi\_platform\_search.py\<close>













section \<open>The fragment of Python's re that the source uses\<close>

text \<open>
  \<open>re\<close> is a backtracking matcher: a quantifier is greedy and gives characters back
  one at a time when the rest of the pattern fails, the branches of a group are tried
  from left to right, and \<open>search\<close> takes the leftmost position at which the pattern
  matches.  The patterns of the source are sequences of: literal text, one character
  of a class, an optional character of a class (\<open>[...]?\<close>), a greedy run of a class
  with a least length (\<open>\s*\<close>, \<open>\d+\<close>, \<open>\d{4,}\<close>), and at most one capturing group,
  whose branches are such sequences.
\<close>

datatype cls = Space | Digit | One_Of "uchar list"

fun in_cls :: "cls \<Rightarrow> uchar \<Rightarrow> bool" where
  "in_cls Space c = is_space c"
| "in_cls Digit c = is_digit c"
| "in_cls (One_Of cs) c = (c \<in> set cs)"

datatype atom = Lit ustring | Chr cls | Opt cls | Rep cls nat

datatype item = Atom atom | Group "atom list list"

text \<open>\<open>greedy f lo hi\<close>: the first of \<open>f hi\<close>, \<open>f (hi - 1)\<close>, ..., \<open>f lo\<close> that succeeds.\<close>

fun greedy :: "(nat \<Rightarrow> 'r option) \<Rightarrow> nat \<Rightarrow> nat \<Rightarrow> 'r option" where
  "greedy f lo 0 = (if lo = 0 then f 0 else None)"
| "greedy f lo (Suc h) =
     (if Suc h < lo then None
      else (case f (Suc h) of Some r \<Rightarrow> Some r | None \<Rightarrow> greedy f lo h))"

fun first_of :: "'r option list \<Rightarrow> 'r option" where
  "first_of [] = None"
| "first_of (x # xs) = (case x of Some r \<Rightarrow> Some r | None \<Rightarrow> first_of xs)"

text \<open>Matching a sequence of atoms at the start of \<open>s\<close>; \<open>k\<close> is the rest of the match,
  given the input that is left, and a failure of \<open>k\<close> makes the atoms try their next
  choice.\<close>

fun m_atoms :: "atom list \<Rightarrow> ustring \<Rightarrow> (ustring \<Rightarrow> 'r option) \<Rightarrow> 'r option" where
  "m_atoms [] s k = k s"
| "m_atoms (Lit l # as) s k =
     (if starts_with s l then m_atoms as (drop (length l) s) k else None)"
| "m_atoms (Chr c # as) s k =
     (case s of [] \<Rightarrow> None | x # s' \<Rightarrow> if in_cls c x then m_atoms as s' k else None)"
| "m_atoms (Opt c # as) s k =
     (case (case s of [] \<Rightarrow> None | x # s' \<Rightarrow> if in_cls c x then m_atoms as s' k else None) of
        Some r \<Rightarrow> Some r
      | None \<Rightarrow> m_atoms as s k)"
| "m_atoms (Rep c lo # as) s k =
     greedy (\<lambda>j. m_atoms as (drop j s) k) lo (length (takeWhile (in_cls c) s))"

text \<open>Matching a pattern; \<open>g\<close> is the text of the capturing group so far (\<open>None\<close> before
  the group has matched).\<close>

fun m_items ::
  "item list \<Rightarrow> ustring \<Rightarrow> ustring option \<Rightarrow> (ustring option \<Rightarrow> ustring \<Rightarrow> 'r option) \<Rightarrow> 'r option" where
  "m_items [] s g k = k g s"
| "m_items (Atom a # its) s g k = m_atoms [a] s (\<lambda>s'. m_items its s' g k)"
| "m_items (Group alts # its) s g k =
     first_of (map (\<lambda>alt. m_atoms alt s
                             (\<lambda>s'. m_items its s' (Some (take (length s - length s') s)) k))
                   alts)"

text \<open>\<open>re.match\<close>: the text of the group and the input after the match.\<close>

definition re_match :: "item list \<Rightarrow> ustring \<Rightarrow> (ustring option \<times> ustring) option" where
  "re_match pattern s = m_items pattern s None (\<lambda>g s'. Some (g, s'))"

text \<open>\<open>re.search\<close>: the match at the leftmost position that has one.\<close>

fun re_search :: "item list \<Rightarrow> ustring \<Rightarrow> (ustring option \<times> ustring) option" where
  "re_search pattern [] = re_match pattern []"
| "re_search pattern (c # s) =
     (case re_match pattern (c # s) of
        Some r \<Rightarrow> Some r
      | None \<Rightarrow> re_search pattern s)"

text \<open>\<open>re.sub(pattern, repl, s)\<close> for a replacement text without group references:
  leftmost matches, one after the other, are replaced; after an empty match the next
  character is copied.\<close>

function re_sub :: "item list \<Rightarrow> ustring \<Rightarrow> ustring \<Rightarrow> ustring" where
  "re_sub pattern repl s =
     (case re_match pattern s of
        Some (g, rest) \<Rightarrow>
          (if length rest < length s then repl @ re_sub pattern repl rest
           else (case s of [] \<Rightarrow> repl | c # s' \<Rightarrow> repl @ c # re_sub pattern repl s'))
      | None \<Rightarrow> (case s of [] \<Rightarrow> [] | c # s' \<Rightarrow> c # re_sub pattern repl s'))"
  by pat_completeness auto
termination
  by (relation "measure (\<lambda>(pattern, repl, s). length s)") auto

text \<open>\<open>s.replace(old, new)\<close> for a non-empty \<open>old\<close>: occurrences from the left, not
  overlapping.\<close>

function py_replace :: "ustring \<Rightarrow> ustring \<Rightarrow> ustring \<Rightarrow> ustring" where
  "py_replace old new s =
     (case s of
        [] \<Rightarrow> []
      | c # s' \<Rightarrow>
          (if old \<noteq> [] \<and> starts_with s old then new @ py_replace old new (drop (length old) s)
           else c # py_replace old new s'))"
  by pat_completeness auto
termination
  by (relation "measure (\<lambda>(old, new, s). length s)") auto


section \<open>agents/price\_tracker\_agent\_improved.py: the extraction of the parameters\<close>

text \<open>\<open>price_pattern\<close> of \<open>_extract_product_name\<close>: one of "target price", "price",
  "yuan", \<open>$\<close>, \<open>NT\<close> or \<open>NT$\<close>, then any whitespace, then digits.\<close>

definition price_pattern :: "item list" where
  "price_pattern =
     [Group [[Lit [30446, 27161, 20729, 26684]], [Lit [20729, 26684]], [Lit [20803]],
             [Lit [36]], [Lit [78, 84], Opt (One_Of [36])]],
      Atom (Rep Space 0), Atom (Rep Digit 1)]"

text \<open>The words taken out of the message: track, monitor, notify, price cut, "please
  help me", "help me", look up, check the price, remove, delete, cancel.\<close>

definition remove_keywords :: "ustring list" where
  "remove_keywords =
     [[36861, 36452], [30435, 25511], [36890, 30693], [38477, 20729], [35531, 24171, 25105],
      [24171, 25105], [26597, 35426], [26597, 20729], [31227, 38500], [21034, 38500],
      [21462, 28040]]"

text \<open>The punctuation class: comma, full stop, exclamation mark and question mark,
  each in its full-width and its ASCII form.\<close>

definition punctuation :: "uchar list" where
  "punctuation = [65292, 44, 12290, 46, 65281, 33, 65311, 63]"

definition extract_product_name :: "ustring \<Rightarrow> exn + ustring option" where
  "extract_product_name message =
     try_except
       (let clean = re_sub price_pattern [] message;
            clean = foldl (\<lambda>clean kw. py_replace kw [32] clean) clean remove_keywords;
            clean = re_sub [Atom (Chr (One_Of punctuation))] [32] clean;
            clean = strip (re_sub [Atom (Rep Space 1)] [32] clean)
        in if length clean > 2 then Inr (Some clean) else Inr None)
       (\<lambda>e. Inr None)"

text \<open>The six patterns of \<open>_extract_target_price\<close>, in the order of the source: "target
  price", "target" and "price", each followed by an optional colon (ASCII or full
  width) and the digits; at least four digits followed by "yuan"; \<open>NT\<close> or \<open>NT$\<close>
  followed by digits; \<open>$\<close> followed by digits.\<close>

definition labelled_number :: "ustring \<Rightarrow> item list" where
  "labelled_number label =
     [Atom (Lit label), Atom (Rep Space 0), Atom (Opt (One_Of [58, 58, 65306])),
      Atom (Rep Space 0), Group [[Rep Digit 1]]]"

definition target_patterns :: "item list list" where
  "target_patterns =
     [labelled_number [30446, 27161, 20729, 26684],
      labelled_number [30446, 27161],
      labelled_number [20729, 26684],
      [Group [[Rep Digit 4]], Atom (Rep Space 0), Atom (Lit [20803])],
      [Atom (Lit [78, 84]), Atom (Opt (One_Of [36])), Atom (Rep Space 0), Group [[Rep Digit 1]]],
      [Atom (Lit [36]), Atom (Rep Space 0), Group [[Rep Digit 1]]]]"

text \<open>
  \<open>float(match.group(1))\<close>.  The group holds decimal digits, and \<open>float\<close> of such a
  text is the float nearest to the number the digits denote; \<open>None\<close> for a group that
  did not take part is a TypeError, and a text with another character is treated as a
  ValueError.  The price is kept as the number the digits denote: the conversion is
  monotone and exact on 100, so the test \<open>price >= 100\<close> of the source gives the same
  answer on the float and on the number, and the float is that number itself as long
  as the number is below \<open>2 ^ 53\<close>.
\<close>

fun decimal_value :: "ustring \<Rightarrow> nat \<Rightarrow> nat option" where
  "decimal_value [] acc = Some acc"
| "decimal_value (c # cs) acc =
     (case digit_value c of None \<Rightarrow> None | Some d \<Rightarrow> decimal_value cs (10 * acc + d))"

definition py_float :: "ustring option \<Rightarrow> exn + nat" where
  "py_float g =
     (case g of
        None \<Rightarrow> Inl (Exception (ascii ''TypeError''))
      | Some text \<Rightarrow>
          (case (if text = [] then None else decimal_value text 0) of
             None \<Rightarrow> Inl (Exception (ascii ''ValueError''))
           | Some v \<Rightarrow> Inr v))"

fun try_patterns :: "item list list \<Rightarrow> ustring \<Rightarrow> exn + nat option" where
  "try_patterns [] message = Inr None"
| "try_patterns (pattern # rest) message =
     (case re_search pattern message of
        None \<Rightarrow> try_patterns rest message
      | Some (g, after) \<Rightarrow>
          (case py_float g of
             Inl e \<Rightarrow> Inl e
           | Inr price \<Rightarrow>
               if price \<ge> 100 then Inr (Some price) else try_patterns rest message))"

definition extract_target_price :: "ustring \<Rightarrow> exn + nat option" where
  "extract_target_price message = try_patterns target_patterns message"

text \<open>The message "track <product> target price <n>" in the words of the source, as
  in the example of its help text: the word for "track", a space, the product, a space,
  the word for "target price", a space, the decimal digits of \<open>n\<close>.\<close>

definition track_message :: "ustring \<Rightarrow> nat \<Rightarrow> ustring" where
  "track_message product n =
     [36861, 36452, 32] @ product @ [32, 30446, 27161, 20729, 26684, 32] @ str_nat n"

text \<open>The products of the round trip: ASCII letters and digits, with no \<open>NT\<close> directly
  followed by a digit (\<open>price_pattern\<close> takes such a piece for a price).\<close>

definition is_ascii_alnum :: "uchar \<Rightarrow> bool" where
  "is_ascii_alnum c \<longleftrightarrow> 48 \<le> c \<and> c \<le> 57 \<or> 65 \<le> c \<and> c \<le> 90 \<or> 97 \<le> c \<and> c \<le> 122"

fun nt_digit_free :: "ustring \<Rightarrow> bool" where
  "nt_digit_free (a # b # c # rest) =
     (\<not> (a = 78 \<and> b = 84 \<and> 48 \<le> c \<and> c \<le> 57) \<and> nt_digit_free (b # c # rest))"
| "nt_digit_free s = True"

text \<open>Patterns made of atoms only.\<close>

fun atoms_only :: "item list \<Rightarrow> bool" where
  "atoms_only [] = True"
| "atoms_only (Atom a # its) = atoms_only its"
| "atoms_only (Group alts # its) = False"

section \<open>Properties of the strings\<close>

lemma strip_empty_iff: "strip s = [] \<longleftrightarrow> (\<forall>c \<in> set s. is_space c)"
proof -
  have "strip s = [] \<longleftrightarrow> dropWhile is_space (rev (dropWhile is_space s)) = []"
    by (simp add: strip_def)
  also have "\<dots> \<longleftrightarrow> (\<forall>c \<in> set (dropWhile is_space s). is_space c)"
    by simp
  also have "\<dots> \<longleftrightarrow> (\<forall>c \<in> set s. is_space c)"
  proof
    assume a: "\<forall>c \<in> set (dropWhile is_space s). is_space c"
    show "\<forall>c \<in> set s. is_space c"
    proof (cases "dropWhile is_space s")
      case Nil
      then show ?thesis by simp
    next
      case (Cons x xs)
      then have "\<not> is_space x" using hd_dropWhile [of is_space s] by auto
      moreover have "is_space x" using a Cons by simp
      ultimately show ?thesis by simp
    qed
  next
    assume "\<forall>c \<in> set s. is_space c"
    then show "\<forall>c \<in> set (dropWhile is_space s). is_space c"
      using set_dropWhileD by fastforce
  qed
  finally show ?thesis .
qed

section \<open>Properties of the fallback classifier and of the history\<close>

text \<open>\<open>max_from\<close> returns the first element of largest key.\<close>

lemma max_from_first:
  "\<exists>i < length (b # xs). (b # xs) ! i = max_from key b xs
      \<and> (\<forall>j < length (b # xs). key ((b # xs) ! j) \<le> key ((b # xs) ! i))
      \<and> (\<forall>j < i. key ((b # xs) ! j) < key ((b # xs) ! i))"
proof (induction xs arbitrary: b)
  case Nil
  then show ?case by simp
next
  case (Cons x xs)
  show ?case
  proof (cases "key x > key b")
    case True
    from Cons.IH [of x] obtain i where i: "i < length (x # xs)" "(x # xs) ! i = max_from key x xs"
      "\<forall>j < length (x # xs). key ((x # xs) ! j) \<le> key ((x # xs) ! i)"
      "\<forall>j < i. key ((x # xs) ! j) < key ((x # xs) ! i)" by blast
    have ge: "key x \<le> key ((x # xs) ! i)" using i(3) by force
    show ?thesis
    proof (intro exI [of _ "Suc i"] conjI allI impI)
      show "Suc i < length (b # x # xs)" using i(1) by simp
      show "(b # x # xs) ! Suc i = max_from key b (x # xs)" using True i(2) by simp
    next
      fix j assume "j < length (b # x # xs)"
      then show "key ((b # x # xs) ! j) \<le> key ((b # x # xs) ! Suc i)"
        using i(3) ge True by (cases j) auto
    next
      fix j assume "j < Suc i"
      then show "key ((b # x # xs) ! j) < key ((b # x # xs) ! Suc i)"
        using i(4) ge True by (cases j) auto
    qed
  next
    case False
    from Cons.IH [of b] obtain i where i: "i < length (b # xs)" "(b # xs) ! i = max_from key b xs"
      "\<forall>j < length (b # xs). key ((b # xs) ! j) \<le> key ((b # xs) ! i)"
      "\<forall>j < i. key ((b # xs) ! j) < key ((b # xs) ! i)" by blast
    show ?thesis
    proof (cases i)
      case 0
      show ?thesis
      proof (intro exI [of _ 0] conjI allI impI)
        show "(b # x # xs) ! 0 = max_from key b (x # xs)" using False i(2) 0 by simp
      next
        fix j assume j: "j < length (b # x # xs)"
        show "key ((b # x # xs) ! j) \<le> key ((b # x # xs) ! 0)"
        proof (cases j)
          case 0 then show ?thesis by simp
        next
          case (Suc k)
          show ?thesis
          proof (cases k)
            case 0 then show ?thesis using Suc False by simp
          next
            case (Suc m)
            then have "Suc m < length (b # xs)" using j \<open>j = Suc k\<close> by simp
            then have "key ((b # xs) ! Suc m) \<le> key ((b # xs) ! i)" using i(3) by blast
            then show ?thesis using \<open>j = Suc k\<close> Suc \<open>i = 0\<close> by simp
          qed
        qed
      qed simp_all
    next
      case (Suc n)
      have bi: "key b < key ((b # xs) ! i)" using i(4) Suc by force
      show ?thesis
      proof (intro exI [of _ "Suc i"] conjI allI impI)
        show "Suc i < length (b # x # xs)" using i(1) by simp
        show "(b # x # xs) ! Suc i = max_from key b (x # xs)" using False i(2) Suc by simp
      next
        fix j assume j: "j < length (b # x # xs)"
        show "key ((b # x # xs) ! j) \<le> key ((b # x # xs) ! Suc i)"
        proof (cases j)
          case 0 then show ?thesis using bi Suc by simp
        next
          case (Suc k)
          show ?thesis
          proof (cases k)
            case 0 then show ?thesis using \<open>j = Suc k\<close> False bi \<open>i = Suc n\<close> by simp
          next
            case (Suc m)
            then have "Suc m < length (b # xs)" using j \<open>j = Suc k\<close> by simp
            then have "key ((b # xs) ! Suc m) \<le> key ((b # xs) ! i)" using i(3) by blast
            then show ?thesis using \<open>j = Suc k\<close> Suc \<open>i = Suc n\<close> by simp
          qed
        qed
      next
        fix j assume j: "j < Suc i"
        show "key ((b # x # xs) ! j) < key ((b # x # xs) ! Suc i)"
        proof (cases j)
          case 0 then show ?thesis using bi \<open>i = Suc n\<close> by simp
        next
          case (Suc k)
          show ?thesis
          proof (cases k)
            case 0 then show ?thesis using \<open>j = Suc k\<close> False bi \<open>i = Suc n\<close> by simp
          next
            case (Suc m)
            then have "Suc m < i" using j \<open>j = Suc k\<close> by simp
            then have "key ((b # xs) ! Suc m) < key ((b # xs) ! i)" using i(4) by blast
            then show ?thesis using \<open>j = Suc k\<close> Suc \<open>i = Suc n\<close> by simp
          qed
        qed
      qed
    qed
  qed
qed

lemma length_keyword_scores: "length (keyword_scores lower message) = 5"
  by (simp add: keyword_scores_def Let_def)

lemma fallback_winner:
  assumes r: "advanced_fallback_analysis lower message context = Inr (best, conf, a)"
    and nz: "\<exists>ls \<in> set (keyword_scores lower message). snd ls \<noteq> 0"
  shows "\<exists>i < 5. fst (keyword_scores lower message ! i) = best
           \<and> conf = min (snd (keyword_scores lower message ! i)) (9 / 10)
           \<and> (\<forall>j < 5. snd (keyword_scores lower message ! j) \<le> snd (keyword_scores lower message ! i))
           \<and> (\<forall>j < i. snd (keyword_scores lower message ! j) < snd (keyword_scores lower message ! i))"
proof -
  define scores where "scores = keyword_scores lower message"
  obtain b rest where sc: "scores = b # rest" and lr: "length rest = 4"
    using length_keyword_scores [of lower message] by (cases scores) (auto simp: scores_def)
  from max_from_first [of b rest snd] obtain i where i: "i < length (b # rest)"
    "(b # rest) ! i = max_from snd b rest"
    "\<forall>j < length (b # rest). snd ((b # rest) ! j) \<le> snd ((b # rest) ! i)"
    "\<forall>j < i. snd ((b # rest) ! j) < snd ((b # rest) ! i)" by blast
  have nonneg: "\<forall>ls \<in> set scores. 0 \<le> snd ls"
    by (simp add: scores_def keyword_scores_def Let_def recommendation_score_def price_score_def
        review_score_def finance_score_def gmail_score_def)
  obtain top where top: "py_max id (map snd scores) = Inr top" "top \<in> set (map snd scores)"
     "\<forall>v \<in> set (map snd scores). v \<le> top"
  proof -
    from max_from_first [of "snd b" "map snd rest" id] obtain k where
      k: "k < length (snd b # map snd rest)" "(snd b # map snd rest) ! k = max_from id (snd b) (map snd rest)"
       "\<forall>j < length (snd b # map snd rest). id ((snd b # map snd rest) ! j) \<le> id ((snd b # map snd rest) ! k)"
      by blast
    have 1: "py_max id (map snd scores) = Inr (max_from id (snd b) (map snd rest))"
      by (simp add: py_max_def sc)
    have 2: "max_from id (snd b) (map snd rest) \<in> set (map snd scores)"
      using k(1,2) sc by (metis list.simps(9) nth_mem)
    have 3: "\<forall>v \<in> set (map snd scores). v \<le> max_from id (snd b) (map snd rest)"
    proof
      fix v assume "v \<in> set (map snd scores)"
      then obtain j where "j < length (snd b # map snd rest)" "(snd b # map snd rest) ! j = v"
        using sc by (metis in_set_conv_nth list.simps(9))
      then show "v \<le> max_from id (snd b) (map snd rest)" using k(3) k(2) by (metis id_apply)
    qed
    from that 1 2 3 show ?thesis by blast
  qed
  have "top \<noteq> 0"
  proof
    assume "top = 0"
    then have "\<forall>ls \<in> set scores. snd ls = 0" using top(3) nonneg by fastforce
    then show False using nz by (simp add: scores_def)
  qed
  then have "advanced_fallback_analysis lower message context
      = Inr (fst (max_from snd b rest), min (snd (max_from snd b rest)) (9 / 10),
           [(ascii ''intent'', JStr (guess_intent lower message)),
                     (ascii ''keywords'', JList (extract_keywords lower message)),
                     (ascii ''context'', JStr [22522, 26044, 35215, 21063, 20998, 26512]),
                     (ascii ''reasoning'',
                        JStr ([21305, 37197, 24230, 26368, 39640, 30340, 21151, 33021, 26159]
                              @ fst (max_from snd b rest)))])"
    using top(1) sc
    by (simp add: advanced_fallback_analysis_def Let_def scores_def [symmetric] py_max_def
        split: prod.splits)
  with r have "best = fst (max_from snd b rest)" "conf = min (snd (max_from snd b rest)) (9 / 10)"
    by simp_all
  then show ?thesis using i lr sc unfolding scores_def [symmetric]
    by (intro exI [of _ i]) simp
qed

text \<open>The last ten entries, and the history of one user under a run of calls.\<close>

lemma last_ten_append: "last_ten (last_ten xs @ ys) = last_ten (xs @ ys)"
proof (cases "length xs \<le> 10")
  case True
  then show ?thesis by (simp add: last_ten_def)
next
  case False
  then have eq: "length ys + (length xs - 10) = length xs + length ys - 10"
    and len: "length xs - (length xs - 10) = 10" by arith+
  have "last_ten (last_ten xs @ ys) = drop (length ys) (drop (length xs - 10) xs) @ drop (length ys - 10) ys"
    using len by (simp add: last_ten_def)
  also have "\<dots> = drop (length xs + length ys - 10) xs @ drop (length ys - 10) ys"
    by (simp add: eq)
  also have "\<dots> = last_ten (xs @ ys)"
    using False by (simp add: last_ten_def)
  finally show ?thesis .
qed

lemma length_last_ten: "length (last_ten xs) \<le> 10"
  by (simp add: last_ten_def)

lemma update_history_user:
  "u \<noteq> [] \<Longrightarrow> get_user_context (update_conversation_history self (Some u) message agent now) (Some u)
     = last_ten (get_user_context self (Some u) @ [mk_turn (message, agent, now)])"
  by (auto simp: get_user_context_def update_conversation_history_def Let_def last_ten_def mk_turn_def
      split: option.splits)

lemma record_all_user:
  "u \<noteq> [] \<Longrightarrow> ts \<noteq> [] \<Longrightarrow>
   get_user_context (record_all self (map (\<lambda>(m, a, t). (Some u, m, a, t)) ts)) (Some u)
     = last_ten (get_user_context self (Some u) @ map mk_turn ts)"
proof (induction ts arbitrary: self)
  case Nil
  then show ?case by simp
next
  case (Cons x ts)
  obtain m a t where x: "x = (m, a, t)" by (cases x) auto
  show ?case
  proof (cases "ts = []")
    case True
    then show ?thesis using Cons.prems x by (simp add: update_history_user)
  next
    case False
    have "get_user_context (record_all self (map (\<lambda>(m, a, t). (Some u, m, a, t)) (x # ts))) (Some u)
        = last_ten (last_ten (get_user_context self (Some u) @ [mk_turn (m, a, t)]) @ map mk_turn ts)"
      using Cons.IH [OF Cons.prems(1) False] x Cons.prems(1) by (simp add: update_history_user)
    also have "\<dots> = last_ten ((get_user_context self (Some u) @ [mk_turn (m, a, t)]) @ map mk_turn ts)"
      by (rule last_ten_append)
    finally show ?thesis using x by simp
  qed
qed

lemma update_history_bound:
  "length (get_user_context self v) \<le> 10 \<Longrightarrow>
   length (get_user_context (update_conversation_history self user_id message agent now) v) \<le> 10"
  by (auto simp: get_user_context_def update_conversation_history_def Let_def split: option.splits)

lemma record_all_bound:
  "\<forall>v. length (get_user_context self v) \<le> 10 \<Longrightarrow>
   length (get_user_context (record_all self calls) v) \<le> 10"
proof (induction calls arbitrary: self)
  case Nil
  then show ?case by simp
next
  case (Cons c calls)
  obtain u m a t where c: "c = (u, m, a, t)" by (cases c) auto
  have "\<forall>v. length (get_user_context (update_conversation_history self u m a t) v) \<le> 10"
    using Cons.prems update_history_bound by blast
  from Cons.IH [OF this] show ?case using c by simp
qed

text \<open>The two ways through \<open>analyze_intent\<close>: the fallback hands the analyzer back as it
  was, the reply of the remote model appends a turn for the user.\<close>

lemma analyze_intent_fallback_keeps_history:
  "api_key self = []
     \<or> call_openai message (drop (length (get_user_context self user_id) - 3)
                               (get_user_context self user_id)) = No_Result
     \<or> call_openai message (drop (length (get_user_context self user_id) - 3)
                               (get_user_context self user_id)) = Not_An_Object \<Longrightarrow>
   analyze_intent lower call_openai now self message user_id
     = (advanced_fallback_analysis lower message (get_user_context self user_id), self)"
  by (auto simp: analyze_intent_def Let_def get_user_context_def)

lemma analyze_intent_reply_records:
  "api_key self \<noteq> [] \<Longrightarrow> u \<noteq> [] \<Longrightarrow>
   call_openai message (drop (length (get_user_context self (Some u)) - 3)
                          (get_user_context self (Some u))) = Reply (Some agent) c d \<Longrightarrow>
   get_user_context (snd (analyze_intent lower call_openai now self message (Some u))) (Some u)
     = last_ten (get_user_context self (Some u) @ [mk_turn (message, agent, now)])"
  by (simp add: analyze_intent_def Let_def update_history_user)

lemmas score_defs =
  keyword_scores_def recommendation_score_def price_score_def review_score_def
  finance_score_def gmail_score_def any_in_def starts_with_def ascii_def ascii_lower_def

section \<open>Properties of the search over the platforms\<close>









section \<open>Properties of the matcher and of the extraction\<close>

lemma greedy_SomeD:
  "greedy f lo hi = Some r \<Longrightarrow> \<exists>j. lo \<le> j \<and> j \<le> hi \<and> f j = Some r"
proof (induction hi)
  case 0
  then show ?case by (auto split: if_splits)
next
  case (Suc h)
  show ?case
  proof (cases "f (Suc h)")
    case None
    with Suc.prems have "greedy f lo h = Some r" by (simp split: if_splits)
    from Suc.IH [OF this] show ?thesis by (meson le_Suc_eq)
  next
    case (Some a)
    with Suc.prems have "\<not> Suc h < lo" "a = r" by (auto split: if_splits)
    with Some show ?thesis by (intro exI [of _ "Suc h"]) simp
  qed
qed

lemma first_of_SomeD: "first_of xs = Some r \<Longrightarrow> Some r \<in> set xs"
  by (induction xs) (auto split: option.splits)

lemma m_atoms_SomeD: "m_atoms as s k = Some r \<Longrightarrow> \<exists>s'. k s' = Some r"
proof (induction as s k rule: m_atoms.induct)
  case (1 s k)
  then show ?case by auto
next
  case (2 l as s k)
  then show ?case by (auto split: if_splits)
next
  case (3 c as s k)
  then show ?case by (auto split: if_splits list.splits)
next
  case (4 c as s k)
  then show ?case by (auto split: if_splits list.splits option.splits)
next
  case (5 c lo as s k)
  from 5(2) obtain j where "m_atoms as (drop j s) k = Some r"
    using greedy_SomeD by fastforce
  with 5(1) show ?case by blast
qed

lemma rep_digit_SomeD:
  "m_atoms [Rep Digit lo] s k = Some r \<Longrightarrow>
   \<exists>j. lo \<le> j \<and> j \<le> length (takeWhile is_digit s) \<and> k (drop j s) = Some r"
  using greedy_SomeD [of "\<lambda>j. k (drop j s)" lo "length (takeWhile is_digit s)" r]
  by (simp add: in_cls.simps [abs_def])

text \<open>Patterns made of atoms only hand the group on as it is.\<close>

lemma atoms_only_SomeD:
  "atoms_only its \<Longrightarrow> m_items its s g k = Some r \<Longrightarrow> \<exists>s'. k g s' = Some r"
proof (induction its arbitrary: s)
  case Nil
  then show ?case by auto
next
  case (Cons it its)
  then obtain a where it: "it = Atom a" by (cases it) auto
  with Cons.prems have "m_atoms [a] s (\<lambda>s'. m_items its s' g k) = Some r" by simp
  from m_atoms_SomeD [OF this] obtain s' where "m_items its s' g k = Some r" by blast
  with Cons.IH Cons.prems it show ?case by auto
qed

lemma take_prefix_digits:
  "j \<le> length (takeWhile is_digit s) \<Longrightarrow> list_all is_digit (take j s)"
proof -
  assume j: "j \<le> length (takeWhile is_digit s)"
  have "take j s = take j (takeWhile is_digit s @ dropWhile is_digit s)" by simp
  also have "\<dots> = take j (takeWhile is_digit s)" using j by (simp del: takeWhile_dropWhile_id)
  finally have "set (take j s) \<subseteq> set (takeWhile is_digit s)" by (metis set_take_subset)
  then show ?thesis by (auto simp: list_all_iff dest: set_takeWhileD)
qed

lemma digit_group_SomeD:
  assumes "atoms_only pre" "atoms_only post" "1 \<le> lo"
    and "m_items (pre @ Group [[Rep Digit lo]] # post) s None k = Some r"
  shows "\<exists>ds s'. ds \<noteq> [] \<and> list_all is_digit ds \<and> k (Some ds) s' = Some r"
  using assms
proof (induction pre arbitrary: s)
  case Nil
  then have "m_atoms [Rep Digit lo] s
               (\<lambda>s'. m_items post s' (Some (take (length s - length s') s)) k) = Some r"
    by (simp split: option.splits)
  from rep_digit_SomeD [OF this] obtain j where j: "lo \<le> j" "j \<le> length (takeWhile is_digit s)"
    "m_items post (drop j s) (Some (take (length s - length (drop j s)) s)) k = Some r" by blast
  have js: "j \<le> length s" using j(2) by (meson le_trans length_takeWhile_le)
  then have "length s - length (drop j s) = j" by simp
  with j(3) have "m_items post (drop j s) (Some (take j s)) k = Some r" by simp
  from atoms_only_SomeD [OF Nil.prems(2) this] obtain s' where "k (Some (take j s)) s' = Some r" by blast
  moreover have "take j s \<noteq> []" using j(1) js Nil.prems(3) by auto
  moreover have "list_all is_digit (take j s)" using j(2) by (rule take_prefix_digits)
  ultimately show ?case by blast
next
  case (Cons it pre)
  then obtain a where it: "it = Atom a" by (cases it) auto
  with Cons.prems have "m_atoms [a] s (\<lambda>s'. m_items (pre @ Group [[Rep Digit lo]] # post) s' None k) = Some r"
    by simp
  from m_atoms_SomeD [OF this] obtain s' where
    "m_items (pre @ Group [[Rep Digit lo]] # post) s' None k = Some r" by blast
  with Cons.IH Cons.prems it show ?case by auto
qed

text \<open>The shape of the six patterns: atoms, one group of digits, atoms.\<close>

lemma target_patterns_shape:
  assumes "pattern \<in> set target_patterns"
  shows "\<exists>pre post lo. pattern = pre @ Group [[Rep Digit lo]] # post
            \<and> atoms_only pre \<and> atoms_only post \<and> 1 \<le> lo"
proof -
  have lab: "\<exists>pre post lo. labelled_number l = pre @ Group [[Rep Digit lo]] # post
            \<and> atoms_only pre \<and> atoms_only post \<and> 1 \<le> lo" for l
    unfolding labelled_number_def
    by (intro exI [of _ "[Atom (Lit l), Atom (Rep Space 0), Atom (Opt (One_Of [58, 58, 65306])),
                          Atom (Rep Space 0)]"] exI [of _ "[]"] exI [of _ 1]) simp
  have p4: "\<exists>pre post lo. [Group [[Rep Digit 4]], Atom (Rep Space 0), Atom (Lit [20803])]
              = pre @ Group [[Rep Digit lo]] # post
            \<and> atoms_only pre \<and> atoms_only post \<and> 1 \<le> lo"
    by (intro exI [of _ "[]"] exI [of _ "[Atom (Rep Space 0), Atom (Lit [20803])]"] exI [of _ 4]) simp
  have p5: "\<exists>pre post lo. [Atom (Lit [78, 84]), Atom (Opt (One_Of [36])), Atom (Rep Space 0),
                             Group [[Rep Digit 1]]] = pre @ Group [[Rep Digit lo]] # post
            \<and> atoms_only pre \<and> atoms_only post \<and> 1 \<le> lo"
    by (intro exI [of _ "[Atom (Lit [78, 84]), Atom (Opt (One_Of [36])), Atom (Rep Space 0)]"]
          exI [of _ "[]"] exI [of _ 1]) simp
  have p6: "\<exists>pre post lo. [Atom (Lit [36]), Atom (Rep Space 0), Group [[Rep Digit 1]]]
              = pre @ Group [[Rep Digit lo]] # post
            \<and> atoms_only pre \<and> atoms_only post \<and> 1 \<le> lo"
    by (intro exI [of _ "[Atom (Lit [36]), Atom (Rep Space 0)]"] exI [of _ "[]"] exI [of _ 1]) simp
  from assms consider "pattern = labelled_number [30446, 27161, 20729, 26684]"
    | "pattern = labelled_number [30446, 27161]" | "pattern = labelled_number [20729, 26684]"
    | "pattern = [Group [[Rep Digit 4]], Atom (Rep Space 0), Atom (Lit [20803])]"
    | "pattern = [Atom (Lit [78, 84]), Atom (Opt (One_Of [36])), Atom (Rep Space 0),
                  Group [[Rep Digit 1]]]"
    | "pattern = [Atom (Lit [36]), Atom (Rep Space 0), Group [[Rep Digit 1]]]"
    by (auto simp: target_patterns_def)
  then show ?thesis
    using lab p4 p5 p6 by cases (simp_all only:)
qed

lemma re_match_group:
  "atoms_only pre \<Longrightarrow> atoms_only post \<Longrightarrow> 1 \<le> lo \<Longrightarrow>
   re_match (pre @ Group [[Rep Digit lo]] # post) s = Some (g, rest) \<Longrightarrow>
   \<exists>ds. g = Some ds \<and> ds \<noteq> [] \<and> list_all is_digit ds"
  unfolding re_match_def
  using digit_group_SomeD [where k = "\<lambda>g s'. Some (g, s')"] by fastforce

lemma re_search_SomeD:
  "re_search pattern s = Some r \<Longrightarrow> \<exists>t. re_match pattern t = Some r"
  by (induction s) (auto split: option.splits)

text \<open>What \<open>re_search\<close> reports is a match at some position of the text.\<close>

lemma re_search_position:
  "re_search pattern s = Some r \<Longrightarrow> \<exists>n \<le> length s. re_match pattern (drop n s) = Some r"
proof (induction s)
  case Nil
  then show ?case by simp
next
  case (Cons c s)
  show ?case
  proof (cases "re_match pattern (c # s)")
    case None
    with Cons obtain n where "n \<le> length s" "re_match pattern (drop n s) = Some r" by auto
    then show ?thesis by (intro exI [of _ "Suc n"]) simp
  next
    case (Some a)
    with Cons.prems show ?thesis by (intro exI [of _ 0]) simp
  qed
qed

lemma re_search_group:
  assumes "pattern \<in> set target_patterns" "re_search pattern s = Some (g, rest)"
  shows "\<exists>ds. g = Some ds \<and> ds \<noteq> [] \<and> list_all is_digit ds"
proof -
  from target_patterns_shape [OF assms(1)] obtain pre post lo where
    sh: "pattern = pre @ Group [[Rep Digit lo]] # post" "atoms_only pre" "atoms_only post" "1 \<le> lo"
    by blast
  from re_search_SomeD [OF assms(2)] obtain t where "re_match pattern t = Some (g, rest)" by blast
  with sh show ?thesis using re_match_group by blast
qed

lemma decimal_value_digits:
  "list_all is_digit ds \<Longrightarrow> \<exists>v. decimal_value ds acc = Some v"
  by (induction ds arbitrary: acc) (auto simp: is_digit_def)

lemma py_float_digits:
  "ds \<noteq> [] \<Longrightarrow> list_all is_digit ds \<Longrightarrow> \<exists>v. py_float (Some ds) = Inr v"
  using decimal_value_digits [of ds 0] by (auto simp: py_float_def)

lemma try_patterns_result:
  "set pats \<subseteq> set target_patterns \<Longrightarrow>
   \<exists>r. try_patterns pats message = Inr r
      \<and> (\<forall>price. r = Some price \<longrightarrow> 100 \<le> price)
      \<and> (r = None \<longleftrightarrow>
           (\<forall>pattern \<in> set pats. \<forall>g after price.
               re_search pattern message = Some (g, after) \<and> py_float g = Inr price \<longrightarrow> price < 100))"
proof (induction pats)
  case Nil
  then show ?case by simp
next
  case (Cons pattern pats)
  have sub: "set pats \<subseteq> set target_patterns" using Cons.prems by simp
  from Cons.IH [OF sub] obtain r where r: "try_patterns pats message = Inr r"
      "\<forall>price. r = Some price \<longrightarrow> 100 \<le> price"
      "r = None \<longleftrightarrow>
           (\<forall>pattern \<in> set pats. \<forall>g after price.
               re_search pattern message = Some (g, after) \<and> py_float g = Inr price \<longrightarrow> price < 100)"
    by blast
  have shape: "pattern \<in> set target_patterns" using Cons.prems by simp
  show ?case
  proof (cases "re_search pattern message")
    case None
    then show ?thesis using r by auto
  next
    case (Some m)
    obtain g after where m: "m = (g, after)" by (cases m)
    from re_search_group [OF shape] Some m obtain ds where ds: "g = Some ds" "ds \<noteq> []" "list_all is_digit ds"
      by blast
    from py_float_digits [OF ds(2,3)] obtain v where v: "py_float g = Inr v" using ds(1) by auto
    show ?thesis
    proof (cases "100 \<le> v")
      case True
      then have "try_patterns (pattern # pats) message = Inr (Some v)" using Some m v by simp
      moreover have "\<not> (\<forall>pattern \<in> set (pattern # pats). \<forall>g after price.
               re_search pattern message = Some (g, after) \<and> py_float g = Inr price \<longrightarrow> price < 100)"
        using Some m v True by auto
      ultimately show ?thesis using True by auto
    next
      case False
      then have "try_patterns (pattern # pats) message = Inr r" using Some m v r(1) by simp
      moreover have "(\<forall>pattern \<in> set (pattern # pats). \<forall>g after price.
               re_search pattern message = Some (g, after) \<and> py_float g = Inr price \<longrightarrow> price < 100)
           \<longleftrightarrow> (\<forall>pattern \<in> set pats. \<forall>g after price.
               re_search pattern message = Some (g, after) \<and> py_float g = Inr price \<longrightarrow> price < 100)"
        using Some m v False by auto
      ultimately show ?thesis using r(2,3) by auto
    qed
  qed
qed

declare str_nat.simps [simp del]

lemma digit_value_ascii: "c < 128 \<Longrightarrow> digit_value c = (if 48 \<le> c \<and> c \<le> 57 then Some (c - 48) else None)"
  by (simp add: digit_value_def decimal_zeros_def)

lemma is_digit_ascii: "c < 128 \<Longrightarrow> is_digit c \<longleftrightarrow> 48 \<le> c \<and> c \<le> 57"
  by (simp add: is_digit_def digit_value_ascii)

lemma is_space_ascii_digit: "48 \<le> c \<Longrightarrow> c \<le> 122 \<Longrightarrow> \<not> is_space c"
  by (auto simp: is_space_def whitespace_chars_def)

lemma cjk_not_digit: "\<not> is_digit 30446" "\<not> is_space 30446"
  by (simp_all add: is_digit_def digit_value_def decimal_zeros_def is_space_def whitespace_chars_def)

lemma is_space_32: "is_space 32"
  by (simp add: is_space_def whitespace_chars_def)


subsection \<open>str and float\<close>

lemma str_nat_digits: "\<forall>c \<in> set (str_nat n). 48 \<le> c \<and> c \<le> 57"
proof (induction n rule: str_nat.induct)
  case (1 n)
  show ?case
  proof (cases "n < 10")
    case True
    then show ?thesis by (subst str_nat.simps) simp
  next
    case False
    have "n mod 10 < 10" by simp
    then have "48 + n mod 10 \<le> 57" by linarith
    with 1 False show ?thesis by (subst str_nat.simps) auto
  qed
qed

lemma str_nat_not_Nil: "str_nat n \<noteq> []"
  by (subst str_nat.simps) simp

lemma decimal_value_snoc:
  "decimal_value (xs @ [c]) acc =
     (case decimal_value xs acc of
        None \<Rightarrow> None
      | Some v \<Rightarrow> (case digit_value c of None \<Rightarrow> None | Some d \<Rightarrow> Some (10 * v + d)))"
  by (induction xs arbitrary: acc) (auto split: option.splits)

lemma decimal_value_str_nat: "decimal_value (str_nat n) 0 = Some n"
proof (induction n rule: str_nat.induct)
  case (1 n)
  show ?case
  proof (cases "n < 10")
    case True
    then show ?thesis by (subst str_nat.simps) (simp add: digit_value_ascii)
  next
    case False
    have "n mod 10 < 10" by simp
    then have d: "digit_value (48 + n mod 10) = Some (n mod 10)"
      by (simp add: digit_value_ascii)
    from 1 False have "decimal_value (str_nat (n div 10)) 0 = Some (n div 10)" by simp
    with d False show ?thesis
      by (subst str_nat.simps) (simp add: decimal_value_snoc)
  qed
qed

lemma py_float_str_nat: "py_float (Some (str_nat n)) = Inr n"
  by (simp add: py_float_def str_nat_not_Nil decimal_value_str_nat)

lemma str_nat_is_digit: "list_all is_digit (str_nat n)"
  using str_nat_digits [of n] by (auto simp: list_all_iff is_digit_ascii)

subsection \<open>Rewriting re_sub and py_replace one step at a time\<close>

lemma re_sub_Nil: "re_match pattern [] = None \<Longrightarrow> re_sub pattern repl [] = []"
  by simp

lemma re_sub_skip:
  "re_match pattern (c # s) = None \<Longrightarrow> re_sub pattern repl (c # s) = c # re_sub pattern repl s"
  by simp

lemma re_sub_hit:
  "re_match pattern s = Some (g, rest) \<Longrightarrow> length rest < length s \<Longrightarrow>
   re_sub pattern repl s = repl @ re_sub pattern repl rest"
  by simp

declare re_sub.simps [simp del]

lemma py_replace_Nil: "py_replace old new [] = []"
  by simp

lemma py_replace_skip:
  "c \<noteq> k \<Longrightarrow> py_replace (k # old) new (c # s) = c # py_replace (k # old) new s"
  by (simp add: starts_with_def)

lemma py_replace_hit:
  "py_replace old new (old @ s) = (if old = [] then py_replace old new s else new @ py_replace old new s)"
  by (cases old) (simp_all add: starts_with_def)

declare py_replace.simps [simp del]

lemma py_replace_absent:
  "\<forall>c \<in> set s. c \<noteq> k \<Longrightarrow> py_replace (k # old) new s = s"
  by (induction s) (simp_all add: py_replace_Nil py_replace_skip)


subsection \<open>One step of the matcher\<close>

lemma greedy_first: "lo \<le> hi \<Longrightarrow> f hi = Some r \<Longrightarrow> greedy f lo hi = Some r"
  by (cases hi) auto

lemma greedy_short: "hi < lo \<Longrightarrow> greedy f lo hi = None"
  by (cases hi) auto

lemma greedy_zero: "greedy f 0 0 = f 0"
  by simp

lemma greedy_all_None: "\<forall>j \<le> hi. f j = None \<Longrightarrow> greedy f lo hi = None"
  by (induction hi) auto

lemma m_items_Lit:
  "m_items (Atom (Lit l) # its) s g k =
     (if starts_with s l then m_items its (drop (length l) s) g k else None)"
  by simp

lemma m_items_Chr_Cons:
  "m_items (Atom (Chr c) # its) (x # s) g k = (if in_cls c x then m_items its s g k else None)"
  by simp

lemma m_items_Chr_Nil: "m_items (Atom (Chr c) # its) [] g k = None"
  by simp

lemma m_items_Opt_absent:
  "\<not> in_cls c x \<Longrightarrow> m_items (Atom (Opt c) # its) (x # s) g k = m_items its (x # s) g k"
  by simp

lemma m_items_Opt_Nil: "m_items (Atom (Opt c) # its) [] g k = m_items its [] g k"
  by simp

lemma m_items_Rep:
  "m_items (Atom (Rep c lo) # its) s g k =
     greedy (\<lambda>j. m_items its (drop j s) g k) lo (length (takeWhile (in_cls c) s))"
  by simp

lemma m_items_Group_digits:
  "m_items (Group [[Rep Digit lo]] # its) s g k =
     greedy (\<lambda>j. m_items its (drop j s) (Some (take (length s - length (drop j s)) s)) k)
       lo (length (takeWhile is_digit s))"
  by (simp add: in_cls.simps [abs_def] split: option.splits)

lemma m_items_Nil: "m_items [] s g k = k g s"
  by simp

lemma m_items_Group:
  "m_items (Group alts # its) s g k =
     first_of (map (\<lambda>alt. m_atoms alt s
                             (\<lambda>s'. m_items its s' (Some (take (length s - length s') s)) k))
                   alts)"
  by simp

lemma run_none: "\<not> in_cls c x \<Longrightarrow> length (takeWhile (in_cls c) (x # s)) = 0"
  by simp

lemma run_one: "in_cls c x \<Longrightarrow> \<not> in_cls c y \<Longrightarrow> length (takeWhile (in_cls c) (x # y # s)) = 1"
  by simp

lemma run_last: "in_cls c x \<Longrightarrow> length (takeWhile (in_cls c) [x]) = 1"
  by simp

lemma takeWhile_all: "list_all P xs \<Longrightarrow> takeWhile P xs = xs"
  by (simp add: list_all_iff)

text \<open>A run of whitespace that nothing or a non-space follows is skipped whole, or the
  match fails for good where no digit follows.\<close>

lemma rep_space_skip_none:
  "\<not> is_space x \<Longrightarrow>
   m_items (Atom (Rep Space 0) # its) (x # s) g k = m_items its (x # s) g k"
  by simp

lemma rep_space_skip_Nil:
  "m_items (Atom (Rep Space 0) # its) [] g k = m_items its [] g k"
  by simp

lemma digits_then_end:
  assumes "ds \<noteq> []" "list_all is_digit ds" "k g [] = Some r"
  shows "m_items [Atom (Rep Digit 1)] ds g k = Some r"
proof -
  have len: "length (takeWhile (in_cls Digit) ds) = length ds"
    using assms(2) by (simp add: takeWhile_all in_cls.simps [abs_def])
  have lo: "1 \<le> length ds" using assms(1) by (cases ds) auto
  have "greedy (\<lambda>j. m_items [] (drop j ds) g k) 1 (length ds) = Some r"
    using lo by (rule greedy_first) (simp add: assms(3))
  then show ?thesis by (simp only: m_items_Rep len)
qed

lemma space_digits_then_end:
  assumes "ds \<noteq> []" "\<forall>c \<in> set ds. 48 \<le> c \<and> c \<le> 57" "k g [] = Some r"
  shows "m_items [Atom (Rep Space 0), Atom (Rep Digit 1)] (32 # ds) g k = Some r"
proof -
  obtain d ds' where d: "ds = d # ds'" using assms(1) by (cases ds) auto
  then have "\<not> is_space d" using assms(2) by (simp add: is_space_ascii_digit)
  then have run: "length (takeWhile (in_cls Space) (32 # ds)) = 1"
    using d by (simp add: is_space_32)
  have dig: "list_all is_digit ds"
    using assms(2) by (auto simp: list_all_iff is_digit_ascii)
  have "greedy (\<lambda>j. m_items [Atom (Rep Digit 1)] (drop j (32 # ds)) g k) 0 1 = Some r"
    using digits_then_end [of ds k g r] assms(1) dig assms(3)
    by (intro greedy_first) simp_all
  then show ?thesis by (simp only: m_items_Rep run)
qed

lemma no_digits_fail:
  "\<not> is_space x \<Longrightarrow> \<not> is_digit x \<Longrightarrow>
   m_items [Atom (Rep Space 0), Atom (Rep Digit 1)] (x # s) g k = None"
  by simp

lemma no_digits_fail_Nil:
  "m_items [Atom (Rep Space 0), Atom (Rep Digit 1)] [] g k = None"
  by simp

lemma space_no_digits_fail:
  "\<not> is_space x \<Longrightarrow> \<not> is_digit x \<Longrightarrow>
   m_items [Atom (Rep Space 0), Atom (Rep Digit 1)] (32 # x # s) g k = None"
  by (simp add: is_space_32 is_digit_ascii)

subsection \<open>The target price of a track message\<close>

lemma labelled_number_head:
  "c \<noteq> l \<Longrightarrow> re_match (labelled_number (l # label)) (c # s) = None"
  by (simp add: re_match_def labelled_number_def starts_with_def)

lemma re_search_skip_prefix:
  "\<forall>c \<in> set pre. c \<noteq> l \<Longrightarrow>
   re_search (labelled_number (l # label)) (pre @ c0 # s) = re_search (labelled_number (l # label)) (c0 # s)"
  by (induction pre) (simp_all add: labelled_number_head)

lemma labelled_number_match:
  assumes ds: "ds \<noteq> []" "\<forall>c \<in> set ds. 48 \<le> c \<and> c \<le> 57"
  shows "re_match (labelled_number label) (label @ 32 # ds) = Some (Some ds, [])"
proof -
  let ?k = "\<lambda>g s'. Some (g :: ustring option, s' :: ustring)"
  obtain d ds' where d: "ds = d # ds'" using ds(1) by (cases ds) auto
  have dd: "48 \<le> d" "d \<le> 57" using ds(2) d by auto
  then have nsp: "\<not> is_space d" and nc: "\<not> in_cls (One_Of [58, 58, 65306]) d"
    by (auto simp: is_space_ascii_digit)
  have "list_all is_digit ds"
    using ds(2) by (auto simp: list_all_iff is_digit_ascii)
  then have all: "length (takeWhile is_digit ds) = length ds"
    by (simp add: takeWhile_all)
  have lo: "1 \<le> length ds" using d by simp
  have grp: "m_items [Group [[Rep Digit 1]]] ds None ?k = Some (Some ds, [])"
    unfolding m_items_Group_digits all using lo by (rule greedy_first) (simp only: m_items_Nil, simp)
  have 3: "m_items [Atom (Rep Space 0), Group [[Rep Digit 1]]] ds None ?k = Some (Some ds, [])"
    unfolding d by (subst rep_space_skip_none [OF nsp]) (rule grp [unfolded d])
  have 2: "m_items [Atom (Opt (One_Of [58, 58, 65306])), Atom (Rep Space 0), Group [[Rep Digit 1]]] ds None ?k
        = Some (Some ds, [])"
    unfolding d by (subst m_items_Opt_absent [OF nc]) (rule 3 [unfolded d])
  have run: "length (takeWhile (in_cls Space) (32 # ds)) = 1"
    unfolding d using nsp by (simp add: is_space_32)
  have 1: "m_items [Atom (Rep Space 0), Atom (Opt (One_Of [58, 58, 65306])), Atom (Rep Space 0),
                     Group [[Rep Digit 1]]] (32 # ds) None ?k = Some (Some ds, [])"
    unfolding m_items_Rep run
  proof (rule greedy_first)
    show "0 \<le> (1::nat)" by simp
    show "m_items [Atom (Opt (One_Of [58, 58, 65306])), Atom (Rep Space 0), Group [[Rep Digit 1]]]
            (drop 1 (32 # ds)) None ?k = Some (Some ds, [])"
      using 2 by (simp del: m_items.simps)
  qed
  show ?thesis
    unfolding re_match_def labelled_number_def m_items_Lit using 1 by (simp add: starts_with_def del: m_items.simps)
qed

lemma target_price_of_track_message:
  assumes alnum: "list_all is_ascii_alnum product" and n: "100 \<le> n"
  shows "extract_target_price (track_message product n) = Inr (Some n)"
proof -
  let ?label = "[30446, 27161, 20729, 26684]"
  have pre: "\<forall>c \<in> set ([36861, 36452, 32] @ product @ [32]). c \<noteq> 30446"
    using alnum by (auto simp: list_all_iff is_ascii_alnum_def)
  have "track_message product n = ([36861, 36452, 32] @ product @ [32]) @ 30446 # ([27161, 20729, 26684] @ 32 # str_nat n)"
    by (simp add: track_message_def)
  then have "re_search (labelled_number ?label) (track_message product n)
      = re_search (labelled_number ?label) (30446 # ([27161, 20729, 26684] @ 32 # str_nat n))"
    using re_search_skip_prefix [OF pre] by simp
  also have "\<dots> = Some (Some (str_nat n), [])"
    using labelled_number_match [OF str_nat_not_Nil str_nat_digits, of ?label n] by simp
  finally have "re_search (labelled_number ?label) (track_message product n) = Some (Some (str_nat n), [])" .
  then show ?thesis using n
    by (simp add: extract_target_price_def target_patterns_def py_float_str_nat)
qed


subsection \<open>The product name of a track message\<close>

lemma pp_head:
  "c \<noteq> 30446 \<Longrightarrow> c \<noteq> 20729 \<Longrightarrow> c \<noteq> 20803 \<Longrightarrow> c \<noteq> 36 \<Longrightarrow> c \<noteq> 78 \<Longrightarrow>
   re_match price_pattern (c # s) = None"
  by (simp add: re_match_def price_pattern_def starts_with_def)

lemma pp_Nil: "re_match price_pattern [] = None"
  by (simp add: re_match_def price_pattern_def starts_with_def)

lemma pp_N_end: "re_match price_pattern [78] = None"
  by (simp add: re_match_def price_pattern_def starts_with_def)

lemma pp_N_not_T: "c \<noteq> 84 \<Longrightarrow> re_match price_pattern (78 # c # s) = None"
  by (simp add: re_match_def price_pattern_def starts_with_def)

lemma pp_NT_other:
  "y \<noteq> 36 \<Longrightarrow> \<not> is_space y \<Longrightarrow> \<not> is_digit y \<Longrightarrow>
   re_match price_pattern (78 # 84 # y # s) = None"
  by (simp add: re_match_def price_pattern_def starts_with_def)

lemma pp_NT_space:
  "\<not> is_space x \<Longrightarrow> \<not> is_digit x \<Longrightarrow> re_match price_pattern (78 # 84 # 32 # x # s) = None"
  by (simp add: re_match_def price_pattern_def starts_with_def is_space_32 is_digit_ascii)

lemma pp_hit:
  assumes "ds \<noteq> []" "\<forall>c \<in> set ds. 48 \<le> c \<and> c \<le> 57"
  shows "re_match price_pattern ([30446, 27161, 20729, 26684] @ 32 # ds)
           = Some (Some [30446, 27161, 20729, 26684], [])"
proof -
  have "m_items [Atom (Rep Space 0), Atom (Rep Digit 1)] (32 # ds) (Some [30446, 27161, 20729, 26684])
          (\<lambda>g s'. Some (g, s')) = Some (Some [30446, 27161, 20729, 26684], [])"
    using assms by (intro space_digits_then_end) simp_all
  then show ?thesis
    by (simp add: re_match_def price_pattern_def starts_with_def m_items_Group del: m_items.simps)
qed


lemma nt_digit_free_tl: "nt_digit_free (c # p) \<Longrightarrow> nt_digit_free p"
  by (induction p rule: nt_digit_free.induct) auto

lemma alnum_facts:
  assumes "is_ascii_alnum c"
  shows "c \<noteq> 30446" "c \<noteq> 20729" "c \<noteq> 20803" "c \<noteq> 36" "c \<noteq> 32" "\<not> is_space c" "c < 128"
    "c \<notin> set punctuation" "c \<noteq> 36861"
  using assms by (auto simp: is_ascii_alnum_def is_space_def whitespace_chars_def punctuation_def)

lemma no_match_inside_product:
  assumes alnum: "list_all is_ascii_alnum (c # p)" and free: "nt_digit_free (c # p)"
    and x: "\<not> is_space x" "\<not> is_digit x"
  shows "re_match price_pattern (c # p @ 32 # x # t) = None"
proof (cases "c = 78")
  case False
  then show ?thesis using alnum alnum_facts [of c] by (simp add: pp_head)
next
  case True
  show ?thesis
  proof (cases p)
    case Nil
    then show ?thesis using True by (simp add: pp_N_not_T)
  next
    case (Cons b q)
    show ?thesis
    proof (cases "b = 84")
      case False
      then show ?thesis using True Cons by (simp add: pp_N_not_T)
    next
      case b: True
      show ?thesis
      proof (cases q)
        case Nil
        then show ?thesis using True Cons b x by (simp add: pp_NT_space)
      next
        case (Cons y r)
        have y: "is_ascii_alnum y" using alnum \<open>p = b # q\<close> Cons by simp
        have "\<not> (48 \<le> y \<and> y \<le> 57)" using free True b \<open>p = b # q\<close> Cons by simp
        then have "\<not> is_digit y" using alnum_facts(7) [OF y] by (simp add: is_digit_ascii)
        then show ?thesis
          using True b \<open>p = b # q\<close> Cons alnum_facts [OF y] by (simp add: pp_NT_other)
      qed
    qed
  qed
qed

lemma re_sub_over_product:
  "list_all is_ascii_alnum p \<Longrightarrow> nt_digit_free p \<Longrightarrow> \<not> is_space x \<Longrightarrow> \<not> is_digit x \<Longrightarrow>
   re_sub price_pattern [] (p @ 32 # x # t) = p @ re_sub price_pattern [] (32 # x # t)"
proof (induction p)
  case Nil
  then show ?case by simp
next
  case (Cons c p)
  have "re_match price_pattern (c # p @ 32 # x # t) = None"
    using Cons.prems by (intro no_match_inside_product)
  then have "re_sub price_pattern [] ((c # p) @ 32 # x # t) = c # re_sub price_pattern [] (p @ 32 # x # t)"
    by (simp add: re_sub_skip)
  moreover have "list_all is_ascii_alnum p" "nt_digit_free p"
    using Cons.prems nt_digit_free_tl by auto
  ultimately show ?case using Cons.IH Cons.prems by simp
qed

lemma re_sub_track_message:
  assumes "list_all is_ascii_alnum p" "nt_digit_free p"
  shows "re_sub price_pattern [] (track_message p n) = [36861, 36452, 32] @ p @ [32]"
proof -
  let ?t = "[27161, 20729, 26684, 32] @ str_nat n"
  have tail: "re_sub price_pattern [] (32 # 30446 # ?t) = [32]"
  proof -
    have "re_match price_pattern (30446 # ?t) = Some (Some [30446, 27161, 20729, 26684], [])"
      using pp_hit [OF str_nat_not_Nil str_nat_digits, of n] by simp
    then have "re_sub price_pattern [] (30446 # ?t) = [] @ re_sub price_pattern [] []"
      by (intro re_sub_hit) simp_all
    then have "re_sub price_pattern [] (30446 # ?t) = []"
      by (simp add: re_sub_Nil pp_Nil)
    then show ?thesis by (simp add: re_sub_skip pp_head)
  qed
  have "re_sub price_pattern [] (track_message p n)
      = 36861 # 36452 # 32 # re_sub price_pattern [] (p @ 32 # 30446 # ?t)"
    by (simp add: track_message_def re_sub_skip pp_head)
  also have "re_sub price_pattern [] (p @ 32 # 30446 # ?t) = p @ re_sub price_pattern [] (32 # 30446 # ?t)"
    using assms cjk_not_digit by (intro re_sub_over_product)
  finally show ?thesis using tail by simp
qed

subsection \<open>Keywords, punctuation, whitespace\<close>

lemma py_replace_ascii:
  "\<forall>c \<in> set s. c < 128 \<Longrightarrow> 128 \<le> k \<Longrightarrow> py_replace (k # old) new s = s"
  by (intro py_replace_absent) auto

lemma remove_keywords_track:
  assumes "list_all is_ascii_alnum p"
  shows "foldl (\<lambda>clean kw. py_replace kw [32] clean) ([36861, 36452, 32] @ p @ [32]) remove_keywords
           = 32 # 32 # p @ [32]"
proof -
  have a: "\<forall>c \<in> set (32 # p @ [32]). c \<noteq> 36861"
    using assms alnum_facts(9) by (auto simp: list_all_iff)
  have "py_replace [36861, 36452] [32] ([36861, 36452] @ 32 # p @ [32])
          = [32] @ py_replace [36861, 36452] [32] (32 # p @ [32])"
    by (simp only: py_replace_hit) simp
  also have "py_replace [36861, 36452] [32] (32 # p @ [32]) = 32 # p @ [32]"
    using a by (rule py_replace_absent)
  finally have first: "py_replace [36861, 36452] [32] ([36861, 36452, 32] @ p @ [32]) = 32 # 32 # p @ [32]"
    by simp
  have b: "\<forall>c \<in> set (32 # 32 # p @ [32]). c < 128"
    using assms alnum_facts(7) by (auto simp: list_all_iff)
  have rest: "py_replace (k # old) [32] (32 # 32 # p @ [32]) = 32 # 32 # p @ [32]" if "128 \<le> k" for k old
    using b that by (rule py_replace_ascii)
  show ?thesis
    unfolding remove_keywords_def by (simp only: foldl.simps first) (simp add: rest)
qed

lemma punctuation_absent:
  "\<forall>c \<in> set s. c \<notin> set punctuation \<Longrightarrow>
   re_sub [Atom (Chr (One_Of punctuation))] [32] s = s"
  by (induction s) (simp_all add: re_sub_Nil re_sub_skip re_match_def)

lemma collapse_no_space:
  "\<forall>c \<in> set p. \<not> is_space c \<Longrightarrow>
   re_sub [Atom (Rep Space 1)] [32] (p @ t) = p @ re_sub [Atom (Rep Space 1)] [32] t"
  by (induction p) (simp_all add: re_sub_skip re_match_def)

lemma collapse_track:
  assumes "p \<noteq> []" "\<forall>c \<in> set p. \<not> is_space c"
  shows "re_sub [Atom (Rep Space 1)] [32] (32 # 32 # p @ [32]) = 32 # p @ [32]"
proof -
  obtain c q where p: "p = c # q" using assms(1) by (cases p) auto
  then have c: "\<not> is_space c" using assms(2) by simp
  have "re_match [Atom (Rep Space 1)] (32 # 32 # p @ [32]) = Some (None, p @ [32])"
    using c by (simp add: re_match_def p is_space_32)
  then have 1: "re_sub [Atom (Rep Space 1)] [32] (32 # 32 # p @ [32])
      = [32] @ re_sub [Atom (Rep Space 1)] [32] (p @ [32])"
    by (intro re_sub_hit) simp_all
  have "re_match [Atom (Rep Space 1)] [32] = Some (None, [])"
    by (simp add: re_match_def is_space_32)
  then have "re_sub [Atom (Rep Space 1)] [32] [32] = [32] @ re_sub [Atom (Rep Space 1)] [32] []"
    by (intro re_sub_hit) simp_all
  then have 2: "re_sub [Atom (Rep Space 1)] [32] [32] = [32]"
    by (simp add: re_sub_Nil re_match_def)
  show ?thesis using 1 2 collapse_no_space [OF assms(2), of "[32]"] by simp
qed

lemma strip_track:
  assumes "p \<noteq> []" "\<forall>c \<in> set p. \<not> is_space c"
  shows "strip (32 # p @ [32]) = p"
proof -
  have h: "\<not> is_space (hd p)" and l: "\<not> is_space (last p)" using assms by auto
  have 1: "dropWhile is_space (32 # p @ [32]) = p @ [32]"
    using assms(1) h by (cases p) (simp_all add: is_space_32)
  have 2: "dropWhile is_space (rev (p @ [32])) = rev p"
    using assms(1) l by (cases p rule: rev_cases) (simp_all add: is_space_32)
  show ?thesis by (simp only: strip_def 1 2 rev_rev_ident)
qed

lemma product_name_of_track_message:
  assumes alnum: "list_all is_ascii_alnum product" and len: "2 < length product"
    and free: "nt_digit_free product"
  shows "extract_product_name (track_message product n) = Inr (Some product)"
proof -
  have ne: "product \<noteq> []" using len by auto
  have nsp: "\<forall>c \<in> set product. \<not> is_space c"
    using alnum alnum_facts(6) by (auto simp: list_all_iff)
  have np: "\<forall>c \<in> set (32 # 32 # product @ [32]). c \<notin> set punctuation"
    using alnum alnum_facts(8) by (auto simp: list_all_iff punctuation_def)
  show ?thesis
    unfolding extract_product_name_def Let_def
    by (simp only: re_sub_track_message [OF alnum free] remove_keywords_track [OF alnum]
          punctuation_absent [OF np] collapse_track [OF ne nsp] strip_track [OF ne nsp])
       (simp add: len try_except_def)
qed

lemma strip_no_space: "\<forall>c \<in> set p. \<not> is_space c \<Longrightarrow> strip p = p"
proof -
  assume a: "\<forall>c \<in> set p. \<not> is_space c"
  have "dropWhile is_space p = p" using a by (cases p) auto
  moreover have "dropWhile is_space (rev p) = rev p" using a by (cases "rev p") (auto simp: rev_eq_Cons_iff)
  ultimately show ?thesis by (simp add: strip_def)
qed

lemma short_product_dropped:
  assumes alnum: "list_all is_ascii_alnum product" and ne: "product \<noteq> []" and len: "length product \<le> 2"
    and free: "nt_digit_free product"
  shows "extract_product_name (track_message product n) = Inr None"
proof -
  have nsp: "\<forall>c \<in> set product. \<not> is_space c"
    using alnum alnum_facts(6) by (auto simp: list_all_iff)
  have np: "\<forall>c \<in> set (32 # 32 # product @ [32]). c \<notin> set punctuation"
    using alnum alnum_facts(8) by (auto simp: list_all_iff punctuation_def)
  show ?thesis
    unfolding extract_product_name_def Let_def
    by (simp only: re_sub_track_message [OF alnum free] remove_keywords_track [OF alnum]
          punctuation_absent [OF np] collapse_track [OF ne nsp] strip_track [OF ne nsp])
       (use len in \<open>simp add: try_except_def\<close>)
qed

lemmas matcher_eval =
  re_match_def starts_with_def is_space_def whitespace_chars_def
  is_digit_def digit_value_def decimal_zeros_def ascii_def

text \<open>A product that holds \<open>NT\<close> and a digit is taken for a price and removed.\<close>

lemma nt_product_removed:
  "extract_product_name (track_message (ascii ''NT500'') 100) = Inr None"
proof -
  have t1: "track_message (ascii ''NT500'') 100
      = [36861, 36452, 32, 78, 84, 53, 48, 48, 32, 30446, 27161, 20729, 26684, 32, 49, 48, 48]"
    by (simp add: track_message_def ascii_def str_nat.simps)
  have s1: "re_sub price_pattern []
       [36861, 36452, 32, 78, 84, 53, 48, 48, 32, 30446, 27161, 20729, 26684, 32, 49, 48, 48]
      = [36861, 36452, 32, 32]"
    by (simp add: re_sub.simps price_pattern_def matcher_eval)
  have s2: "foldl (\<lambda>clean kw. py_replace kw [32] clean) [36861, 36452, 32, 32] remove_keywords
      = [32, 32, 32]"
    by (simp add: remove_keywords_def py_replace.simps starts_with_def)
  have s3: "re_sub [Atom (Chr (One_Of punctuation))] [32] [32, 32, 32] = [32, 32, 32]"
    by (simp add: re_sub.simps punctuation_def matcher_eval)
  have s4: "re_sub [Atom (Rep Space 1)] [32] [32, 32, 32] = [32]"
    by (simp add: re_sub.simps matcher_eval)
  have s5: "strip [32] = []"
    by (simp add: strip_def is_space_def whitespace_chars_def)
  show ?thesis
    unfolding extract_product_name_def Let_def t1
    by (simp only: s1 s2 s3 s4 s5) (simp add: try_except_def)
qed

section \<open>The claims\<close>

text \<open>
  C1.  Whenever every keyword score of the message is 0, the rule-based fallback decides
  for SmartRecommendation with confidence exactly 0.3; and so does \<open>analyze_intent\<close>
  whenever its decision comes from the fallback, that is, when no API key is set or the
  remote model gave no usable result.
\<close>

theorem C1_default_when_no_keyword:
  "(\<forall>ls \<in> set (keyword_scores lower message). snd ls = 0) \<longrightarrow>
     (\<exists>a. advanced_fallback_analysis lower message context
              = Inr (ascii ''SmartRecommendation'', 3 / 10, a)
          \<and> (api_key self = []
               \<or> call_openai message (drop (length (get_user_context self user_id) - 3)
                                         (get_user_context self user_id)) = No_Result
               \<or> call_openai message (drop (length (get_user_context self user_id) - 3)
                                         (get_user_context self user_id)) = Not_An_Object
              \<longrightarrow> fst (analyze_intent lower call_openai now self message user_id)
                    = Inr (ascii ''SmartRecommendation'', 3 / 10, a)))"
  by (auto simp: advanced_fallback_analysis_def analyze_intent_def keyword_scores_def
      py_max_def Let_def get_user_context_def)

theorem C1_default_when_no_keyword_witness:
  "\<exists>a. advanced_fallback_analysis ascii_lower (ascii ''hello'') []
          = Inr (ascii ''SmartRecommendation'', 3 / 10, a)"
proof -
  have "\<forall>ls \<in> set (keyword_scores ascii_lower (ascii ''hello'')). snd ls = 0"
    by (simp add: score_defs)
  with C1_default_when_no_keyword [of ascii_lower "ascii ''hello''" "[]"]
  show ?thesis by blast
qed

text \<open>
  C2.  The claim is that every call of \<open>analyze_intent\<close> with a user id records the turn,
  whichever path decided.  The code records it on the branch of the remote model only
  (\<open>analyze_intent_reply_records\<close>); both exits through the fallback return before
  the recording (\<open>analyze_intent_fallback_keeps_history\<close>).  Here an API key is set,
  the remote call gives no result (a timeout, say), the fallback decides, and the user
  U1, who had no history, still has none.
\<close>

theorem C2_fallback_turn_not_recorded:
  "get_user_context
     (snd (analyze_intent ascii_lower (\<lambda>m c. No_Result) (ascii ''2026-01-01T00:00:00'')
             \<lparr>api_key = ascii ''sk-test'', conversation_history = Map.empty\<rparr>
             (ascii ''hello'') (Some (ascii ''U1''))))
     (Some (ascii ''U1'')) = []"
  by (simp add: analyze_intent_def get_user_context_def Let_def ascii_def)

text \<open>
  C3, as stated, fails.  The message is "track TV target price 100" in the words of the
  source; TV is alphanumeric and 100 is not below 100, the target price is found, but
  the product name is reported absent: a name must be longer than two characters.
\<close>

theorem C3_short_product_counterexample:
  "list_all is_ascii_alnum (ascii ''TV'') \<and> (100::nat) \<le> 100
   \<and> extract_product_name (track_message (ascii ''TV'') 100) = Inr None
   \<and> extract_target_price (track_message (ascii ''TV'') 100) = Inr (Some 100)"
proof -
  have a: "list_all is_ascii_alnum (ascii ''TV'')" by (simp add: ascii_def is_ascii_alnum_def)
  have "extract_product_name (track_message (ascii ''TV'') 100) = Inr None"
    by (rule short_product_dropped [OF a]) (simp_all add: ascii_def)
  moreover have "extract_target_price (track_message (ascii ''TV'') 100) = Inr (Some 100)"
    by (rule target_price_of_track_message [OF a]) simp
  ultimately show ?thesis using a by simp
qed

text \<open>
  C3, amended.  The message is the source's "track", a space, the product, a space,
  the source's "target price", a space and the decimal digits of \<open>n\<close>.  For every
  product of ASCII letters and digits that is longer than two characters and holds no
  \<open>NT\<close> directly followed by a digit, and every \<open>n\<close> from 100 up to (not including)
  \<open>2 ^ 53\<close>, where the conversion to float is exact, the product name found is the
  product, which is its own trimmed form, and the target price found is \<open>n\<close>.
\<close>

theorem C3_track_message_round_trip:
  "list_all is_ascii_alnum product \<and> 2 < length product \<and> nt_digit_free product
     \<and> 100 \<le> n \<and> n < 2 ^ 53 \<longrightarrow>
   extract_product_name (track_message product n) = Inr (Some product)
     \<and> strip product = product
     \<and> extract_target_price (track_message product n) = Inr (Some n)"
proof (intro impI conjI)
  assume a: "list_all is_ascii_alnum product \<and> 2 < length product \<and> nt_digit_free product
     \<and> 100 \<le> n \<and> n < 2 ^ 53"
  then show "extract_product_name (track_message product n) = Inr (Some product)"
    by (intro product_name_of_track_message) simp_all
  show "strip product = product"
    using a alnum_facts(6) by (intro strip_no_space) (auto simp: list_all_iff)
  show "extract_target_price (track_message product n) = Inr (Some n)"
    using a by (intro target_price_of_track_message) simp_all
qed

theorem C3_track_message_round_trip_witness:
  "extract_product_name (track_message (ascii ''iPhone15'') 35000) = Inr (Some (ascii ''iPhone15''))
   \<and> extract_target_price (track_message (ascii ''iPhone15'') 35000) = Inr (Some 35000)"
proof -
  have "list_all is_ascii_alnum (ascii ''iPhone15'') \<and> 2 < length (ascii ''iPhone15'')
     \<and> nt_digit_free (ascii ''iPhone15'') \<and> (100::nat) \<le> 35000 \<and> (35000::nat) < 2 ^ 53"
    by (simp add: ascii_def is_ascii_alnum_def)
  with C3_track_message_round_trip [of "ascii ''iPhone15''" 35000] show ?thesis by blast
qed

text \<open>
  C4.  For every message \<open>_extract_target_price\<close> returns normally, and what it returns
  is either absent or a price of at least 100.  It is absent exactly when no pattern's
  match in the message (the leftmost one, which is the one \<open>re.search\<close> reports) holds
  a number of at least 100; that match is a match at some position
  (\<open>re_search_position\<close>), so the price is absent in particular when no pattern
  matches a number of at least 100 anywhere in the message.
\<close>

theorem C4_target_price_at_least_100:
  "\<exists>r. extract_target_price message = Inr r
      \<and> (\<forall>price. r = Some price \<longrightarrow> 100 \<le> price)
      \<and> (r = None \<longleftrightarrow>
           (\<forall>pattern \<in> set target_patterns. \<forall>g after price.
               re_search pattern message = Some (g, after) \<and> py_float g = Inr price \<longrightarrow> price < 100))"
  unfolding extract_target_price_def by (rule try_patterns_result) simp

theorem C4_target_price_at_least_100_witness:
  "extract_target_price ([20729, 26684] @ ascii '' 50'') = Inr None"
proof -
  define m where "m = [20729, 26684] @ ascii '' 50''"
  have e1: "re_search (labelled_number [30446, 27161, 20729, 26684]) m = None"
    by (simp add: m_def labelled_number_def matcher_eval)
  have e2: "re_search (labelled_number [30446, 27161]) m = None"
    by (simp add: m_def labelled_number_def matcher_eval)
  have e3: "re_search (labelled_number [20729, 26684]) m = Some (Some [53, 48], [])"
    by (simp add: m_def labelled_number_def matcher_eval)
  have e4: "re_search [Group [[Rep Digit 4]], Atom (Rep Space 0), Atom (Lit [20803])] m = None"
    by (simp add: m_def matcher_eval)
  have e5: "re_search [Atom (Lit [78, 84]), Atom (Opt (One_Of [36])), Atom (Rep Space 0),
                        Group [[Rep Digit 1]]] m = None"
    by (simp add: m_def matcher_eval)
  have e6: "re_search [Atom (Lit [36]), Atom (Rep Space 0), Group [[Rep Digit 1]]] m = None"
    by (simp add: m_def matcher_eval)
  have pf: "py_float (Some [53, 48]) = Inr 50"
    by (simp add: py_float_def digit_value_def decimal_zeros_def)
  have low: "\<forall>pattern \<in> set target_patterns. \<forall>g after price.
               re_search pattern m = Some (g, after) \<and> py_float g = Inr price \<longrightarrow> price < 100"
    using pf by (auto simp: target_patterns_def e1 e2 e3 e4 e5 e6 simp del: One_nat_def)
  from C4_target_price_at_least_100 [of m] low
  show ?thesis unfolding m_def by auto
qed

text \<open>
  C5.  For a list of products that is not empty: when every product is an accessory (its
  lower-cased name contains one of the accessory words), the filter is given up and the
  first ten products are returned as they came; otherwise no returned product is an
  accessory.  In both cases the result is not empty.
\<close>

theorem C5_filter_never_starves:
  "products \<noteq> [] \<longrightarrow>
     (if \<forall>p \<in> set products. is_accessory lower p
      then filter_products lower products query = take 10 products
      else (\<forall>p \<in> set (filter_products lower products query). \<not> is_accessory lower p))
     \<and> filter_products lower products query \<noteq> []"
  by (auto simp: filter_products_def Let_def filter_empty_conv dest: in_set_takeD)

theorem C5_filter_never_starves_witness:
  "filter_products ascii_lower
     [\<lparr>prod_name = Some (ascii ''iPhone 15 '' @ [25163, 27231, 27580]), prod_price = Some 299,
        prod_id = Some (ascii ''A1'')\<rparr>,
      \<lparr>prod_name = Some (ascii ''iPhone 15 '' @ [20805, 38651, 32218]), prod_price = Some 199,
        prod_id = Some (ascii ''A2'')\<rparr>]
     (ascii ''iPhone 15'')
   = [\<lparr>prod_name = Some (ascii ''iPhone 15 '' @ [25163, 27231, 27580]), prod_price = Some 299,
        prod_id = Some (ascii ''A1'')\<rparr>,
      \<lparr>prod_name = Some (ascii ''iPhone 15 '' @ [20805, 38651, 32218]), prod_price = Some 199,
        prod_id = Some (ascii ''A2'')\<rparr>]"
proof -
  let ?ps = "[\<lparr>prod_name = Some (ascii ''iPhone 15 '' @ [25163, 27231, 27580]), prod_price = Some 299,
        prod_id = Some (ascii ''A1'')\<rparr>,
      \<lparr>prod_name = Some (ascii ''iPhone 15 '' @ [20805, 38651, 32218]), prod_price = Some 199,
        prod_id = Some (ascii ''A2'')\<rparr>]"
  have a: "\<forall>p \<in> set ?ps. is_accessory ascii_lower p"
    by (simp add: is_accessory_def exclude_keywords_def any_in_def starts_with_def ascii_def
        ascii_lower_def)
  have n: "?ps \<noteq> []" by simp
  from C5_filter_never_starves [of ?ps ascii_lower "ascii ''iPhone 15''"] a n
  show ?thesis by simp
qed




text \<open>
  C7.  Whatever the user id and the message: when the handler's own processing raises an
  exception, \<open>process_message\<close> returns, as an ordinary value, the text made of a cross
  mark, a space, the agent's name and the words for "temporarily unavailable, please
  try again later" (written out below by their code points); when the handler returns
  a text, \<open>process_message\<close> returns that text; and in every case \<open>process_message\<close>
  returns a value, it never raises.
\<close>

theorem C7_process_message_isolates:
  "(process_message_internal self user_id message = Inl e \<longrightarrow>
      process_message self user_id message
        = Inr ([10060, 32] @ agent_name self
               @ [32, 26283, 26178, 28961, 27861, 20351, 29992, 65292,
                  35531, 31245, 24460, 20877, 35430]))
   \<and> (process_message_internal self user_id message = Inr result \<longrightarrow>
        process_message self user_id message = Inr result)
   \<and> (\<exists>response. process_message self user_id message = Inr response)"
  by (cases "process_message_internal self user_id message")
     (simp_all add: process_message_def try_except_def unavailable_message_def)

theorem C7_process_message_isolates_witness:
  "process_message
     \<lparr>agent_name = [80, 84],
      process_message_internal = (\<lambda>u m. Inl (Exception [98, 111, 111, 109]))\<rparr> [117] [104, 105]
     = Inr [10060, 32, 80, 84, 32, 26283, 26178, 28961, 27861, 20351, 29992, 65292,
            35531, 31245, 24460, 20877, 35430]"
  using C7_process_message_isolates
    [of "\<lparr>agent_name = [80, 84],
          process_message_internal = (\<lambda>u m. Inl (Exception [98, 111, 111, 109]))\<rparr>"
        "[117]" "[104, 105]" "Exception [98, 111, 111, 109]"]
  by simp

text \<open>
  C8.  After fifteen turns are recorded for one user, whatever the state before, the
  stored history of that user is the last ten of them, in the order of recording, the
  first five gone; and starting from the empty store of a new analyzer, no history is
  ever longer than ten, whatever calls are made.
\<close>

theorem C8_history_keeps_last_ten:
  "(user_id \<noteq> [] \<and> length turns = 15 \<longrightarrow>
      get_user_context (record_all self (map (\<lambda>(m, a, t). (Some user_id, m, a, t)) turns)) (Some user_id)
        = drop 5 (map mk_turn turns))
   \<and> length (get_user_context
                 (record_all \<lparr>api_key = key, conversation_history = Map.empty\<rparr> calls) v) \<le> 10"
proof (intro conjI impI)
  assume a: "user_id \<noteq> [] \<and> length turns = 15"
  then have ne: "turns \<noteq> []" by auto
  have "get_user_context (record_all self (map (\<lambda>(m, a, t). (Some user_id, m, a, t)) turns)) (Some user_id)
      = last_ten (last_ten (get_user_context self (Some user_id)) @ map mk_turn turns)"
    using record_all_user [of user_id turns self] a ne by (simp add: last_ten_append)
  also have "\<dots> = drop 5 (map mk_turn turns)"
    using a length_last_ten [of "get_user_context self (Some user_id)"] by (simp add: last_ten_def)
  finally show "get_user_context (record_all self (map (\<lambda>(m, a, t). (Some user_id, m, a, t)) turns)) (Some user_id)
      = drop 5 (map mk_turn turns)" .
next
  show "length (get_user_context
                 (record_all \<lparr>api_key = key, conversation_history = Map.empty\<rparr> calls) v) \<le> 10"
    by (rule record_all_bound) (simp add: get_user_context_def split: option.splits)
qed

theorem C8_history_keeps_last_ten_witness:
  "get_user_context
     (record_all \<lparr>api_key = [], conversation_history = Map.empty\<rparr>
        (map (\<lambda>(m, a, t). (Some [85], m, a, t))
           (map (\<lambda>n. ([109, n], [80], [116, n]))
              [1, 2, 3, 4, 5, 6, 7, 8, 9, 10, 11, 12, 13, 14, 15])))
     (Some [85])
   = map (\<lambda>n. mk_turn ([109, n], [80], [116, n])) [6, 7, 8, 9, 10, 11, 12, 13, 14, 15]"
proof -
  have l: "[85] \<noteq> ([]::ustring)
     \<and> length (map (\<lambda>n. ([109, n], [80], [116, n::nat]))
          [1, 2, 3, 4, 5, 6, 7, 8, 9, 10, 11, 12, 13, 14, 15]) = 15"
    by simp
  from C8_history_keeps_last_ten
    [of "[85]" "map (\<lambda>n. ([109, n], [80], [116, n]))
                  [1, 2, 3, 4, 5, 6, 7, 8, 9, 10, 11, 12, 13, 14, 15]"
        "\<lparr>api_key = [], conversation_history = Map.empty\<rparr>"] l
  show ?thesis by simp
qed

text \<open>
  C9.  The fallback classifier is a function of the message alone: the context it is
  given does not enter the result, and through \<open>analyze_intent\<close> without an API key
  neither do the stored history, the user, the clock or the remote model.  The scores
  are listed in the order SmartRecommendation, PriceTracker, ProductReview, Finance,
  Gmail; when some score is not 0 the winner is the first entry of the largest score:
  no entry scores higher and every earlier entry scores strictly lower.  Its
  confidence is its score, capped at 0.9.
\<close>

theorem C9_fallback_deterministic:
  "advanced_fallback_analysis lower message context
     = advanced_fallback_analysis lower message context'
   \<and> (api_key self = [] \<and> api_key self' = [] \<longrightarrow>
        fst (analyze_intent lower call_openai now self message user_id)
          = fst (analyze_intent lower call_openai' now' self' message user_id'))
   \<and> map fst (keyword_scores lower message)
        = [ascii ''SmartRecommendation'', ascii ''PriceTracker'', ascii ''ProductReview'',
           ascii ''Finance'', ascii ''Gmail'']
   \<and> (advanced_fallback_analysis lower message context = Inr (best, conf, a)
        \<and> (\<exists>ls \<in> set (keyword_scores lower message). snd ls \<noteq> 0) \<longrightarrow>
        (\<exists>i < 5. fst (keyword_scores lower message ! i) = best
           \<and> conf = min (snd (keyword_scores lower message ! i)) (9 / 10)
           \<and> (\<forall>j < 5. snd (keyword_scores lower message ! j)
                          \<le> snd (keyword_scores lower message ! i))
           \<and> (\<forall>j < i. snd (keyword_scores lower message ! j)
                          < snd (keyword_scores lower message ! i))))"
proof (intro conjI impI)
  show "advanced_fallback_analysis lower message context
          = advanced_fallback_analysis lower message context'"
    by (simp add: advanced_fallback_analysis_def)
  show "map fst (keyword_scores lower message)
        = [ascii ''SmartRecommendation'', ascii ''PriceTracker'', ascii ''ProductReview'',
           ascii ''Finance'', ascii ''Gmail'']"
    by (simp add: keyword_scores_def Let_def)
next
  assume "api_key self = [] \<and> api_key self' = []"
  then show "fst (analyze_intent lower call_openai now self message user_id)
          = fst (analyze_intent lower call_openai' now' self' message user_id')"
    by (simp add: analyze_intent_def advanced_fallback_analysis_def Let_def)
next
  assume "advanced_fallback_analysis lower message context = Inr (best, conf, a)
        \<and> (\<exists>ls \<in> set (keyword_scores lower message). snd ls \<noteq> 0)"
  then show "\<exists>i < 5. fst (keyword_scores lower message ! i) = best
           \<and> conf = min (snd (keyword_scores lower message ! i)) (9 / 10)
           \<and> (\<forall>j < 5. snd (keyword_scores lower message ! j)
                          \<le> snd (keyword_scores lower message ! i))
           \<and> (\<forall>j < i. snd (keyword_scores lower message ! j)
                          < snd (keyword_scores lower message ! i))"
    using fallback_winner by blast
qed

text \<open>The witness is a tie: "recommend a mouse gmail" scores 0.8 for SmartRecommendation
  and 0.8 for Gmail, and SmartRecommendation, listed first, wins.\<close>

theorem C9_fallback_deterministic_witness:
  "\<exists>a. advanced_fallback_analysis ascii_lower ([25512, 34214, 28369, 40736] @ ascii '' gmail'') []
          = Inr (ascii ''SmartRecommendation'', 8 / 10, a)
      \<and> map snd (keyword_scores ascii_lower ([25512, 34214, 28369, 40736] @ ascii '' gmail''))
          = [8 / 10, 0, 0, 0, 8 / 10]
      \<and> (\<exists>i < 5. fst (keyword_scores ascii_lower ([25512, 34214, 28369, 40736] @ ascii '' gmail'') ! i)
                     = ascii ''SmartRecommendation''
           \<and> (\<forall>j < i. snd (keyword_scores ascii_lower ([25512, 34214, 28369, 40736] @ ascii '' gmail'') ! j)
                < snd (keyword_scores ascii_lower ([25512, 34214, 28369, 40736] @ ascii '' gmail'') ! i)))"
proof -
  define msg where "msg = [25512, 34214, 28369, 40736] @ ascii '' gmail''"
  have sc: "map snd (keyword_scores ascii_lower msg) = [8 / 10, 0, 0, 0, 8 / 10]"
    by (simp add: msg_def score_defs)
  obtain a where ev: "advanced_fallback_analysis ascii_lower msg []
      = Inr (ascii ''SmartRecommendation'', 8 / 10, a)"
    by (simp add: msg_def advanced_fallback_analysis_def py_max_def Let_def score_defs)
  have nz: "\<exists>ls \<in> set (keyword_scores ascii_lower msg). snd ls \<noteq> 0"
    by (simp add: msg_def score_defs)
  from C9_fallback_deterministic
    [of ascii_lower msg "[]" "[]" _ _ _ _ _ _ _ _ "ascii ''SmartRecommendation''" "8 / 10" a] ev nz
  have "\<exists>i < 5. fst (keyword_scores ascii_lower msg ! i) = ascii ''SmartRecommendation''
           \<and> (\<forall>j < i. snd (keyword_scores ascii_lower msg ! j) < snd (keyword_scores ascii_lower msg ! i))"
    by blast
  with ev sc show ?thesis unfolding msg_def
    by - (rule exI [of _ a], intro conjI, assumption+)
qed

text \<open>
  C10.  \<open>validate_input\<close> is False for the empty message, for a message made of
  whitespace only and for a message of more than 1000 characters, and True for every
  other message.
\<close>

theorem C10_validate_input:
  "validate_input message \<longleftrightarrow>
     \<not> (message = [] \<or> (\<forall>c \<in> set message. is_space c) \<or> length message > 1000)"
  by (auto simp: validate_input_def strip_empty_iff)

theorem C10_validate_input_witness:
  "\<not> validate_input [32, 9, 12288] \<and> \<not> validate_input (replicate 1001 97)
     \<and> validate_input [104, 105]"
  using C10_validate_input [of "[32, 9, 12288]"] C10_validate_input [of "replicate 1001 97"]
    C10_validate_input [of "[104, 105]"]
  by (simp add: is_space_def whitespace_chars_def)

end
